theory Spec2Isabelle
  imports Complex_Main "HOL-Library.Word"
begin

section \<open>Gaussian-process surrogate: the squared-exponential kernel\<close>

subsection \<open>Arrays and their arithmetic\<close>

text \<open>
  A one-dimensional array is the list of its entries together with its element type.
  The array library gives an array built from Python integers, such as the notebook's
  \<^verbatim>\<open>x_data = np.atleast_2d([0,11,20,1,5,15,12,3,17]).T\<close> and \<^verbatim>\<open>theta = [3]\<close>, the type of
  64-bit signed integers, whose arithmetic wraps around; an array built from floats
  (\<^verbatim>\<open>np.linspace\<close>, the values of \<^verbatim>\<open>fun\<close>) holds floating-point numbers. A
  two-dimensional array (a design of experiments) is the list of its rows.

  Finite floating-point numbers are idealised as real numbers: rounding, overflow and
  underflow of finite results are not modelled. The values that a division by zero
  produces are modelled: a float is a real number, one of the two infinities, or
  not-a-number.
\<close>

datatype py_error = ValueError | ZeroDivisionError

datatype ndarray = IntArray "64 word list" | FloatArray "real list"

datatype float64 = Finite real | PosInf | NegInf | NaN

text \<open>The entries of an array as real numbers (the conversion to float), and its length.\<close>

fun as_float :: "ndarray \<Rightarrow> real list" where
  "as_float (IntArray ws) = map (\<lambda>w. real_of_int (sint w)) ws"
| "as_float (FloatArray xs) = xs"

definition np_len :: "ndarray \<Rightarrow> nat" where
  "np_len a = length (as_float a)"

text \<open>
  An arithmetic operation of two one-dimensional arrays follows the broadcasting rule:
  equal lengths work elementwise, a length-one operand is stretched, every other
  combination raises \<open>ValueError\<close>.
\<close>

definition broadcastable :: "'a list \<Rightarrow> 'b list \<Rightarrow> bool" where
  "broadcastable xs ys \<longleftrightarrow> length xs = length ys \<or> length ys = 1 \<or> length xs = 1"

definition broadcast :: "('a \<Rightarrow> 'b \<Rightarrow> 'c) \<Rightarrow> 'a list \<Rightarrow> 'b list \<Rightarrow> 'c list" where
  "broadcast f xs ys =
     (if length xs = length ys then map2 f xs ys
      else if length ys = 1 then map (\<lambda>a. f a (hd ys)) xs
      else map (f (hd xs)) ys)"

definition np_binop :: "('a \<Rightarrow> 'b \<Rightarrow> 'c) \<Rightarrow> 'a list \<Rightarrow> 'b list \<Rightarrow> py_error + 'c list" where
  "np_binop f xs ys = (if broadcastable xs ys then Inr (broadcast f xs ys) else Inl ValueError)"

text \<open>
  \<^verbatim>\<open>a - b\<close>: of two integer arrays an integer array, computed in 64 bits with
  wrap-around; as soon as one operand is a float array, a float array.
\<close>

fun np_sub :: "ndarray \<Rightarrow> ndarray \<Rightarrow> py_error + ndarray" where
  "np_sub (IntArray u) (IntArray v) =
     (case np_binop (-) u v of Inl e \<Rightarrow> Inl e | Inr d \<Rightarrow> Inr (IntArray d))"
| "np_sub a b =
     (case np_binop (-) (as_float a) (as_float b) of
        Inl e \<Rightarrow> Inl e
      | Inr d \<Rightarrow> Inr (FloatArray d))"

text \<open>\<^verbatim>\<open>a**2\<close>: the element type is kept, so the square of an integer wraps around.\<close>

fun np_square :: "ndarray \<Rightarrow> ndarray" where
  "np_square (IntArray u) = IntArray (map (\<lambda>w. w * w) u)"
| "np_square (FloatArray xs) = FloatArray (map (\<lambda>d. d\<^sup>2) xs)"

text \<open>
  \<^verbatim>\<open>a / b\<close> is the true division: both operands are converted to float. A zero divisor
  raises nothing (the library warns): the quotient is not-a-number for a zero dividend
  and an infinity of the sign of the dividend otherwise (the divisors here are squares,
  so a zero divisor is the positive zero).
\<close>

definition fdiv :: "real \<Rightarrow> real \<Rightarrow> float64" where
  "fdiv a b =
     (if b \<noteq> 0 then Finite (a / b)
      else if a = 0 then NaN
      else if 0 < a then PosInf else NegInf)"

definition np_true_divide :: "ndarray \<Rightarrow> ndarray \<Rightarrow> py_error + float64 list" where
  "np_true_divide a b = np_binop fdiv (as_float a) (as_float b)"

text \<open>Sum, negation, exponential and product of floats, with the infinities and not-a-number.\<close>

fun fadd :: "float64 \<Rightarrow> float64 \<Rightarrow> float64" where
  "fadd (Finite a) (Finite b) = Finite (a + b)"
| "fadd NaN y = NaN"
| "fadd x NaN = NaN"
| "fadd PosInf NegInf = NaN"
| "fadd NegInf PosInf = NaN"
| "fadd PosInf y = PosInf"
| "fadd x PosInf = PosInf"
| "fadd NegInf y = NegInf"
| "fadd x NegInf = NegInf"

fun fneg :: "float64 \<Rightarrow> float64" where
  "fneg (Finite a) = Finite (- a)"
| "fneg PosInf = NegInf"
| "fneg NegInf = PosInf"
| "fneg NaN = NaN"

fun fexp :: "float64 \<Rightarrow> float64" where
  "fexp (Finite a) = Finite (exp a)"
| "fexp PosInf = PosInf"
| "fexp NegInf = Finite 0"
| "fexp NaN = NaN"

fun fsign_inf :: "real \<Rightarrow> float64" where
  "fsign_inf c = (if c = 0 then NaN else if 0 < c then PosInf else NegInf)"

fun fmul :: "float64 \<Rightarrow> float64 \<Rightarrow> float64" where
  "fmul (Finite a) (Finite b) = Finite (a * b)"
| "fmul NaN y = NaN"
| "fmul x NaN = NaN"
| "fmul (Finite a) PosInf = fsign_inf a"
| "fmul (Finite a) NegInf = fsign_inf (- a)"
| "fmul PosInf (Finite b) = fsign_inf b"
| "fmul NegInf (Finite b) = fsign_inf (- b)"
| "fmul PosInf PosInf = PosInf"
| "fmul NegInf NegInf = PosInf"
| "fmul PosInf NegInf = NegInf"
| "fmul NegInf PosInf = NegInf"

definition np_sum :: "float64 list \<Rightarrow> float64" where
  "np_sum q = foldl fadd (Finite 0) q"

subsection \<open>The covariance function, vector and matrix\<close>

text \<open>
  \<^verbatim>\<open>
  def cov_function(point_1,point_2,theta,sig):
      theta = np.asarray(theta)
      size = point_1.shape
      dist = (point_1-point_2)**2
      k_12 = (sig**2) * np.exp(- np.sum(dist / theta**2))
      return k_12
  \<close>
  A scalar \<open>theta\<close> is the one-element array: both broadcast the same way. \<open>sig\<close> is a
  Python number, whose square is exact.
\<close>

definition cov_function :: "ndarray \<Rightarrow> ndarray \<Rightarrow> ndarray \<Rightarrow> real \<Rightarrow> py_error + float64" where
  "cov_function point_1 point_2 theta sig =
     (case np_sub point_1 point_2 of
        Inl e \<Rightarrow> Inl e
      | Inr diff \<Rightarrow>
          (let dist = np_square diff in
           case np_true_divide dist (np_square theta) of
             Inl e \<Rightarrow> Inl e
           | Inr q \<Rightarrow> Inr (fmul (Finite (sig\<^sup>2)) (fexp (fneg (np_sum q))))))"

text \<open>
  \<^verbatim>\<open>
  def cov_vect(point,points,theta,sig):
      theta = np.asarray(theta)
      size = points.shape
      K = np.array([cov_function(point,point_1,theta,sig) for point_1 in points])
      return K
  \<close>
  The list comprehension stops at the first kernel evaluation that raises.
\<close>

fun cov_list :: "ndarray \<Rightarrow> ndarray list \<Rightarrow> ndarray \<Rightarrow> real \<Rightarrow> py_error + float64 list" where
  "cov_list point [] theta sig = Inr []"
| "cov_list point (point_1 # rest) theta sig =
     (case cov_function point point_1 theta sig of
        Inl e \<Rightarrow> Inl e
      | Inr k \<Rightarrow>
          (case cov_list point rest theta sig of
             Inl e \<Rightarrow> Inl e
           | Inr ks \<Rightarrow> Inr (k # ks)))"

definition cov_vect :: "ndarray \<Rightarrow> ndarray list \<Rightarrow> ndarray \<Rightarrow> real \<Rightarrow> py_error + float64 list" where
  "cov_vect point points theta sig = cov_list point points theta sig"

text \<open>
  \<^verbatim>\<open>
  def cov_matrix(points,theta,sig):
      theta = np.asarray(theta)
      size = points.shape
      K = np.zeros((size[0],size[0]))
      for i,point in enumerate(points):
          K[:,i] = np.array([cov_function(point,point_1,theta,sig) for point_1 in points])
      return K
  \<close>
  \<open>set_col K i col\<close> is the assignment \<open>K[:,i] = col\<close>; the loop runs over the
  enumerated rows, threading the matrix. A matrix is the list of its rows.
\<close>

definition zeros :: "nat \<Rightarrow> nat \<Rightarrow> float64 list list" where
  "zeros m n = replicate m (replicate n (Finite 0))"

definition set_col :: "'a list list \<Rightarrow> nat \<Rightarrow> 'a list \<Rightarrow> 'a list list" where
  "set_col K i col = map2 (\<lambda>row v. row[i := v]) K col"

fun cov_matrix_loop ::
  "(nat \<times> ndarray) list \<Rightarrow> ndarray list \<Rightarrow> ndarray \<Rightarrow> real \<Rightarrow> float64 list list
     \<Rightarrow> py_error + float64 list list" where
  "cov_matrix_loop [] points theta sig K = Inr K"
| "cov_matrix_loop ((i, point) # rest) points theta sig K =
     (case cov_list point points theta sig of
        Inl e \<Rightarrow> Inl e
      | Inr col \<Rightarrow> cov_matrix_loop rest points theta sig (set_col K i col))"

definition cov_matrix :: "ndarray list \<Rightarrow> ndarray \<Rightarrow> real \<Rightarrow> py_error + float64 list list" where
  "cov_matrix points theta sig =
     cov_matrix_loop (enumerate 0 points) points theta sig
       (zeros (length points) (length points))"

subsection \<open>Notions used to state the kernel properties\<close>

text \<open>The squared Euclidean distance \<open>||x - x'||\<^sup>2\<close> of two points of the same dimension.\<close>

definition sq_dist :: "real list \<Rightarrow> real list \<Rightarrow> real" where
  "sq_dist x y = sum_list (map2 (\<lambda>a b. (a - b)\<^sup>2) x y)"

text \<open>A matrix of \<open>n\<close> rows, each of \<open>n\<close> entries.\<close>

definition square :: "nat \<Rightarrow> 'a list list \<Rightarrow> bool" where
  "square n K \<longleftrightarrow> length K = n \<and> (\<forall>row\<in>set K. length row = n)"

subsection \<open>Prediction\<close>

text \<open>Products of real vectors and matrices, used to say what an inverse is.\<close>

definition dot :: "real list \<Rightarrow> real list \<Rightarrow> real" where
  "dot u v = sum_list (map2 (*) u v)"

definition mat_vec :: "real list list \<Rightarrow> real list \<Rightarrow> real list" where
  "mat_vec M v = map (\<lambda>row. dot row v) M"

definition column :: "nat \<Rightarrow> real list list \<Rightarrow> real list" where
  "column j M = map (\<lambda>row. row ! j) M"

text \<open>
  \<open>K_inv\<close> is an inverse of \<open>K\<close>: it has the shape of \<open>K\<close> and the product
  \<open>K \<cdot> K_inv\<close> is the identity matrix.
\<close>

definition is_inverse :: "real list list \<Rightarrow> real list list \<Rightarrow> bool" where
  "is_inverse K K_inv \<longleftrightarrow>
     square (length K) K_inv \<and>
     (\<forall>i<length K. \<forall>j<length K. dot (K ! i) (column j K_inv) = (if i = j then 1 else 0))"

text \<open>The same products on floats, where an entry may be an infinity or not-a-number.\<close>

definition fdot :: "float64 list \<Rightarrow> float64 list \<Rightarrow> float64" where
  "fdot u v = np_sum (map2 fmul u v)"

definition fmat_vec :: "float64 list list \<Rightarrow> float64 list \<Rightarrow> float64 list" where
  "fmat_vec M v = map (\<lambda>row. fdot row v) M"

text \<open>
  Modelled from the spec: \<open>myGPpredict\<close>, the answer to the notebook's first exercise
  (\<^verbatim>\<open>solutions/code2.py\<close>), is not among the sources; only its call
  \<^verbatim>\<open>myGPpredict(x_t,x_data,y_data,K_inv,theta,sig)\<close> is. The specification gives the
  mean \<open>mu(x) = k_star(x) \<cdot> K\<^sup>-\<^sup>1 \<cdot> y\<close> and the variance
  \<open>sigma2(x) = k(x,x) - k_star(x) \<cdot> K\<^sup>-\<^sup>1 \<cdot> k_star(x)\<^sup>T\<close>, where \<open>k_star(x)\<close> is the
  vector of kernel evaluations between \<open>x\<close> and every stored point, and asks for a
  variance clamped to zero when it comes out negative. \<open>k_star\<close> and \<open>k(x,x)\<close> are
  computed by the source's \<open>cov_vect\<close> and \<open>cov_function\<close>; the inverse \<open>K_inv\<close> and
  the observed values are arguments, as in the call, and are finite. First the mean
  formula.
\<close>

definition gp_mean :: "float64 list \<Rightarrow> real list list \<Rightarrow> real list \<Rightarrow> float64" where
  "gp_mean k_star K_inv y = fdot k_star (fmat_vec (map (map Finite) K_inv) (map Finite y))"

text \<open>
  Modelled from the spec: the variance formula of the missing \<open>myGPpredict\<close>,
  \<open>k(x,x) - k_star(x) \<cdot> K\<^sup>-\<^sup>1 \<cdot> k_star(x)\<^sup>T\<close>, before clamping.
\<close>

definition gp_variance :: "float64 \<Rightarrow> float64 list \<Rightarrow> real list list \<Rightarrow> float64" where
  "gp_variance k_xx k_star K_inv =
     fadd k_xx (fneg (fdot k_star (fmat_vec (map (map Finite) K_inv) k_star)))"

text \<open>
  Modelled from the spec: the clamp of the missing \<open>myGPpredict\<close>, which replaces a
  negative variance by zero.
\<close>

fun clamp_zero :: "float64 \<Rightarrow> float64" where
  "clamp_zero (Finite v) = Finite (max 0 v)"
| "clamp_zero NegInf = Finite 0"
| "clamp_zero PosInf = PosInf"
| "clamp_zero NaN = NaN"

text \<open>
  Modelled from the spec: the missing \<open>myGPpredict\<close> itself, returning the mean and the
  variance clamped at zero; a kernel evaluation that raises makes the prediction raise.
\<close>

definition myGPpredict ::
  "ndarray \<Rightarrow> ndarray list \<Rightarrow> real list \<Rightarrow> real list list \<Rightarrow> ndarray \<Rightarrow> real
     \<Rightarrow> py_error + float64 \<times> float64" where
  "myGPpredict x x_data y_data K_inv theta sig =
     (case cov_vect x x_data theta sig of
        Inl e \<Rightarrow> Inl e
      | Inr k_star \<Rightarrow>
          (case cov_function x x theta sig of
             Inl e \<Rightarrow> Inl e
           | Inr k_xx \<Rightarrow>
               Inr (gp_mean k_star K_inv y_data, clamp_zero (gp_variance k_xx k_star K_inv))))"

section \<open>Naive Bayes classification of the sex/height/weight/foot-size data\<close>

text \<open>
  The data set of the notebook (the file \<^verbatim>\<open>sex_classif.csv\<close>, printed by its first
  cell): one row per individual, holding the sex \<open>S\<close> (0 for male, 1 for female), the
  height \<open>H\<close>, the weight \<open>W\<close> and the foot size \<open>F\<close>.
\<close>

definition data :: "real list list" where
  "data =
     [[0, 1.82, 82, 30],
      [0, 1.8, 86, 28],
      [0, 1.7, 77, 30],
      [0, 1.8, 75, 25],
      [1, 1.52, 45, 15],
      [1, 1.65, 68, 20],
      [1, 1.68, 59, 18],
      [1, 1.75, 68, 23],
      [1, 1.58, 49, 19]]"

text \<open>
  The library functions the cell calls, over the reals: \<^verbatim>\<open>np.mean\<close>, \<^verbatim>\<open>np.std\<close> (the
  population standard deviation, \<^verbatim>\<open>sqrt(mean(abs(x - x.mean())**2))\<close>), and the density
  and log-density of the normal distribution, \<^verbatim>\<open>norm.pdf(x, loc, scale)\<close>
  \<open>= exp (- z\<^sup>2 / 2) / sqrt (2 * pi) / scale\<close> and \<^verbatim>\<open>norm.logpdf(x, loc, scale)\<close>
  \<open>= - z\<^sup>2 / 2 - ln (sqrt (2 * pi)) - ln scale\<close> with \<open>z = (x - loc) / scale\<close>. For
  \<open>scale \<le> 0\<close> the library returns not-a-number, which no real number models: every
  statement below about these two functions is made where the scale is positive.
\<close>

definition np_mean :: "real list \<Rightarrow> real" where
  "np_mean xs = sum_list xs / real (length xs)"

definition np_std :: "real list \<Rightarrow> real" where
  "np_std xs = sqrt (np_mean (map (\<lambda>x. \<bar>x - np_mean xs\<bar>\<^sup>2) xs))"

definition norm_pdf :: "real \<Rightarrow> real \<Rightarrow> real \<Rightarrow> real" where
  "norm_pdf x loc scale = exp (- ((x - loc) / scale)\<^sup>2 / 2) / sqrt (2 * pi) / scale"

definition norm_logpdf :: "real \<Rightarrow> real \<Rightarrow> real \<Rightarrow> real" where
  "norm_logpdf x loc scale = - ((x - loc) / scale)\<^sup>2 / 2 - ln (sqrt (2 * pi)) - ln scale"

text \<open>
  \<^verbatim>\<open>
  dataM = data[data[:,0]==0]
  mu_HS0 = np.mean(dataM[:,1])
  std_HS0 = np.std(dataM[:,1])
  mu_WS0 = np.mean(dataM[:,2])
  std_WS0 = np.std(dataM[:,2])
  mu_FS0 = np.mean(dataM[:,3])
  std_FS0 = np.std(dataM[:,3])
  pS0 = dataM.shape[0]/data.shape[0]
  \<close>
  and the same for the rows with \<open>S = 1\<close>. \<open>column j\<close> is the slice \<^verbatim>\<open>[:,j]\<close>.
\<close>

definition dataM :: "real list list" where
  "dataM = filter (\<lambda>row. row ! 0 = 0) data"

definition mu_HS0 :: real where "mu_HS0 = np_mean (column 1 dataM)"
definition std_HS0 :: real where "std_HS0 = np_std (column 1 dataM)"
definition mu_WS0 :: real where "mu_WS0 = np_mean (column 2 dataM)"
definition std_WS0 :: real where "std_WS0 = np_std (column 2 dataM)"
definition mu_FS0 :: real where "mu_FS0 = np_mean (column 3 dataM)"
definition std_FS0 :: real where "std_FS0 = np_std (column 3 dataM)"
definition pS0 :: real where "pS0 = real (length dataM) / real (length data)"

definition dataF :: "real list list" where
  "dataF = filter (\<lambda>row. row ! 0 = 1) data"

definition mu_HS1 :: real where "mu_HS1 = np_mean (column 1 dataF)"
definition std_HS1 :: real where "std_HS1 = np_std (column 1 dataF)"
definition mu_WS1 :: real where "mu_WS1 = np_mean (column 2 dataF)"
definition std_WS1 :: real where "std_WS1 = np_std (column 2 dataF)"
definition mu_FS1 :: real where "mu_FS1 = np_mean (column 3 dataF)"
definition std_FS1 :: real where "std_FS1 = np_std (column 3 dataF)"
definition pS1 :: real where "pS1 = real (length dataF) / real (length data)"

text \<open>
  \<^verbatim>\<open>
  H=1.81
  W=59
  F=21
  score_M = pS0 * norm.pdf(H,mu_HS0,std_HS0) * norm.pdf(W,mu_WS0,std_WS0) * norm.pdf(F,mu_FS0,std_FS0)
  score_F = pS1 * norm.pdf(H,mu_HS1,std_HS1) * norm.pdf(W,mu_WS1,std_WS1) * norm.pdf(F,mu_FS1,std_FS1)
  print("proba male    :", score_M/(score_M+score_F))
  print("proba female  :", score_F/(score_M+score_F))
  log_score_M = np.log(pS0) + norm.logpdf(H,mu_HS0,std_HS0) + norm.logpdf(W,mu_WS0,std_WS0) + norm.logpdf(F,mu_FS0,std_FS0)
  log_score_F = np.log(pS1) + norm.logpdf(H,mu_HS1,std_HS1) + norm.logpdf(W,mu_WS1,std_WS1) + norm.logpdf(F,mu_FS1,std_FS1)
  \<close>
\<close>

definition H :: real where "H = 1.81"
definition W :: real where "W = 59"
definition F :: real where "F = 21"

definition score_M :: real where
  "score_M = pS0 * norm_pdf H mu_HS0 std_HS0 * norm_pdf W mu_WS0 std_WS0 * norm_pdf F mu_FS0 std_FS0"

definition score_F :: real where
  "score_F = pS1 * norm_pdf H mu_HS1 std_HS1 * norm_pdf W mu_WS1 std_WS1 * norm_pdf F mu_FS1 std_FS1"

definition proba_M :: real where "proba_M = score_M / (score_M + score_F)"
definition proba_F :: real where "proba_F = score_F / (score_M + score_F)"

definition log_score_M :: real where
  "log_score_M = ln pS0 + norm_logpdf H mu_HS0 std_HS0 + norm_logpdf W mu_WS0 std_WS0
                   + norm_logpdf F mu_FS0 std_FS0"

definition log_score_F :: real where
  "log_score_F = ln pS1 + norm_logpdf H mu_HS1 std_HS1 + norm_logpdf W mu_WS1 std_WS1
                   + norm_logpdf F mu_FS1 std_FS1"

subsection \<open>The same computation for any class and any number of features\<close>

text \<open>
  The cell above is the two-class, three-feature instance of one computation: a class is
  a prior and, for each feature, the input value with the fitted mean and standard
  deviation; the score multiplies the prior by the densities from left to right, the
  log-score adds the log-densities to the logarithm of the prior, and a probability is a
  score divided by the sum of the scores of all classes.
\<close>

type_synonym feature = "real \<times> real \<times> real"

definition nb_score :: "real \<Rightarrow> feature list \<Rightarrow> real" where
  "nb_score prior feats = foldl (\<lambda>s (x, mu, sd). s * norm_pdf x mu sd) prior feats"

definition nb_log_score :: "real \<Rightarrow> feature list \<Rightarrow> real" where
  "nb_log_score prior feats = foldl (\<lambda>s (x, mu, sd). s + norm_logpdf x mu sd) (ln prior) feats"

definition posterior :: "real list \<Rightarrow> real list" where
  "posterior scores = map (\<lambda>s. s / sum_list scores) scores"

text \<open>
  The specification's other route to the probabilities: exponentiate every log-score
  relative to the largest one and normalise to sum 1 (a softmax over the classes).
\<close>

definition softmax_posterior :: "real list \<Rightarrow> real list" where
  "softmax_posterior log_scores =
     (case log_scores of
        [] \<Rightarrow> []
      | l # ls \<Rightarrow>
          (let m = fold max ls l;
               es = map (\<lambda>a. exp (a - m)) log_scores
           in map (\<lambda>e. e / sum_list es) es))"

text \<open>
  \<^verbatim>\<open>np.argmax\<close> and \<^verbatim>\<open>np.argmin\<close>: the index of the first largest (smallest) entry;
  \<open>ValueError\<close> on an empty array.
\<close>

fun argmax_loop :: "nat \<Rightarrow> nat \<Rightarrow> real \<Rightarrow> real list \<Rightarrow> nat" where
  "argmax_loop i best v [] = best"
| "argmax_loop i best v (x # xs) =
     (if v < x then argmax_loop (Suc i) i x xs else argmax_loop (Suc i) best v xs)"

definition np_argmax :: "real list \<Rightarrow> py_error + nat" where
  "np_argmax xs = (case xs of [] \<Rightarrow> Inl ValueError | x # rest \<Rightarrow> Inr (argmax_loop 1 0 x rest))"

fun argmin_loop :: "nat \<Rightarrow> nat \<Rightarrow> real \<Rightarrow> real list \<Rightarrow> nat" where
  "argmin_loop i best v [] = best"
| "argmin_loop i best v (x # xs) =
     (if x < v then argmin_loop (Suc i) i x xs else argmin_loop (Suc i) best v xs)"

definition np_argmin :: "real list \<Rightarrow> py_error + nat" where
  "np_argmin xs = (case xs of [] \<Rightarrow> Inl ValueError | x # rest \<Rightarrow> Inr (argmin_loop 1 0 x rest))"

subsection \<open>A Taylor polynomial of the exponential function\<close>

text \<open>
  The first eight terms of the exponential series. Having an even number of terms, the
  polynomial is a lower bound of \<open>exp\<close> on the whole real line; it is used to bound the
  log-scores of the worked example between rational numbers.
\<close>

definition exp_poly8 :: "real \<Rightarrow> real" where
  "exp_poly8 y = 1 + y + y^2 / 2 + y^3 / 6 + y^4 / 24 + y^5 / 120 + y^6 / 720 + y^7 / 5040"

section \<open>Hyperparameter selection by multi-start optimisation\<close>

text \<open>
  One run of \<^verbatim>\<open>scipy.optimize.minimize\<close> yields a result with the fields \<^verbatim>\<open>x\<close> (the
  minimiser found), \<^verbatim>\<open>fun\<close> (the objective value there) and \<^verbatim>\<open>success\<close>. The runs
  themselves, one for each entry of \<^verbatim>\<open>theta_start\<close>, are collected in the array
  \<^verbatim>\<open>opt_all\<close>, which is a parameter here. The cell that chooses among them:
  \<^verbatim>\<open>
  opt_success = opt_all[[opt_i['success'] for opt_i in opt_all]]
  obj_success = np.array([opt_i['fun'] for opt_i in opt_success])
  ind_min = np.argmin(obj_success)

  opt = opt_success[ind_min]
  theta_et = opt['x']
  \<close>
  Indexing by the list of the \<^verbatim>\<open>success\<close> flags keeps the runs whose flag is set, in
  their order. \<^verbatim>\<open>np.argmin\<close> of an empty array raises \<open>ValueError\<close>.
\<close>

record opt_result =
  res_x :: "real list"
  res_fun :: real
  res_success :: bool

definition opt_success :: "opt_result list \<Rightarrow> opt_result list" where
  "opt_success opt_all = filter res_success opt_all"

definition obj_success :: "opt_result list \<Rightarrow> real list" where
  "obj_success opt_all = map res_fun (opt_success opt_all)"

definition ind_min :: "opt_result list \<Rightarrow> py_error + nat" where
  "ind_min opt_all = np_argmin (obj_success opt_all)"

definition opt :: "opt_result list \<Rightarrow> py_error + opt_result" where
  "opt opt_all =
     (case ind_min opt_all of Inl e \<Rightarrow> Inl e | Inr i \<Rightarrow> Inr (opt_success opt_all ! i))"

definition theta_et :: "opt_result list \<Rightarrow> py_error + real list" where
  "theta_et opt_all = (case opt opt_all of Inl e \<Rightarrow> Inl e | Inr r \<Rightarrow> Inr (res_x r))"

section \<open>Expected improvement\<close>

text \<open>
  The distribution function of the standard normal distribution (\<^verbatim>\<open>norm.cdf\<close>), as
  the power series of \<open>1/2 + (\<integral>\<^sub>0\<^sup>z exp (- t\<^sup>2 / 2) dt) / sqrt (2 * pi)\<close>.
\<close>

definition norm_cdf :: "real \<Rightarrow> real" where
  "norm_cdf z =
     1 / 2 + (\<Sum>n. (- 1) ^ n * z ^ (2 * n + 1) / (2 ^ n * fact n * real (2 * n + 1))) / sqrt (2 * pi)"

text \<open>A division that records a zero divisor instead of returning a value.\<close>

definition checked_div :: "real \<Rightarrow> real \<Rightarrow> py_error + real" where
  "checked_div a b = (if b = 0 then Inl ZeroDivisionError else Inr (a / b))"

text \<open>
  A surrogate is what the optimisation loop reads of the fitted model: the predicted
  mean and the predicted standard deviation at a point.
\<close>

record surrogate =
  predict_mean :: "real list \<Rightarrow> real"
  predict_std :: "real list \<Rightarrow> real"

text \<open>
  Modelled from the spec: the function \<^verbatim>\<open>EI\<close>, the answer to question 5.1
  (\<^verbatim>\<open>solutions/code6.py\<close>), is not among the sources; only its call
  \<^verbatim>\<open>EI(gpr,X_plot,np.min(y_data))\<close> is. The specification defines
  \<open>EI(x) = (f_min - mu(x)) * \<Phi>(z) + sigma(x) * \<phi>(z)\<close> with
  \<open>z = (f_min - mu(x)) / sigma(x)\<close>, and defines it as \<open>0\<close> when \<open>sigma(x) = 0\<close>, the
  acquisition value at an already-sampled point being treated as zero rather than
  dividing by zero.
\<close>

definition EI :: "surrogate \<Rightarrow> real list \<Rightarrow> real \<Rightarrow> py_error + real" where
  "EI GP point f_min =
     (let m = predict_mean GP point; s = predict_std GP point in
      if s = 0 then Inr 0
      else
        (case checked_div (f_min - m) s of
           Inl e \<Rightarrow> Inl e
         | Inr z \<Rightarrow> Inr ((f_min - m) * norm_cdf z + s * norm_pdf z 0 1)))"

section \<open>The sequential optimisation loop (EGO)\<close>

text \<open>
  \<^verbatim>\<open>np.min\<close>: the smallest entry; \<open>ValueError\<close> on an empty array.
\<close>

definition np_min :: "real list \<Rightarrow> py_error + real" where
  "np_min ys = (case ys of [] \<Rightarrow> Inl ValueError | y # rest \<Rightarrow> Inr (fold min rest y))"

text \<open>
  Modelled from the spec: the loop itself, the answer to question 5.2
  (\<^verbatim>\<open>solutions/code7.py\<close>), is not among the sources; only its set-up
  (\<^verbatim>\<open>x_data\<close>, \<^verbatim>\<open>y_data\<close>, \<^verbatim>\<open>n_iter = 17\<close>, the first training of the model) is. The
  specification describes it, and the notebook summarises the algorithm:
  \<^verbatim>\<open>
  For (i=0:n_iter)
    mod = model(X, Y)            # surrogate model based on sample vectors X and Y
    f_min = min Y
    x_{i+1} = argmax EI(mod, f_min)   # choose x that maximizes EI
    y_{i+1} = F(x_{i+1})         # probe the function at most promising point
    X = [X, x_{i+1}]
    Y = [Y, y_{i+1}]
    i = i+1
  f_min = min Y
  Return : f_min
  \<close>
  The design of experiments is the list of the (point, value) pairs. Fitting the
  surrogate (\<open>fit\<close>), maximising the acquisition function over the domain (\<open>acquire\<close>)
  and the expensive function (\<open>objective\<close>) are parameters. The loop runs for the fixed
  budget \<open>n_iter\<close>, as the specification has it; the stagnation report that the
  specification suggests for an acquisition optimiser without candidate, and says the
  source does not exercise, is not part of it.
\<close>

type_synonym design = "(real list \<times> real) list"

text \<open>
  Modelled from the spec: one pass of the missing loop through fitting, acquiring and
  evaluating, which appends the new pair to the design.
\<close>

definition ego_iteration ::
  "(design \<Rightarrow> 'm) \<Rightarrow> ('m \<Rightarrow> real \<Rightarrow> real list) \<Rightarrow> (real list \<Rightarrow> real) \<Rightarrow> design \<Rightarrow> real
     \<Rightarrow> design" where
  "ego_iteration fit acquire objective doe f_min =
     (let model = fit doe;
          x_next = acquire model f_min;
          y_next = objective x_next
      in doe @ [(x_next, y_next)])"

text \<open>
  Modelled from the spec: the missing loop. It carries the iteration counter \<open>i\<close> and
  the list of the values \<open>f_min\<close> has taken, one at the start of each iteration, and
  returns both with the final design.
\<close>

function ego_loop ::
  "(design \<Rightarrow> 'm) \<Rightarrow> ('m \<Rightarrow> real \<Rightarrow> real list) \<Rightarrow> (real list \<Rightarrow> real) \<Rightarrow> nat \<Rightarrow> nat
     \<Rightarrow> design \<Rightarrow> real list \<Rightarrow> py_error + nat \<times> design \<times> real list" where
  "ego_loop fit acquire objective n_iter i doe trace =
     (if i < n_iter then
        (case np_min (map snd doe) of
           Inl e \<Rightarrow> Inl e
         | Inr f_min \<Rightarrow>
             ego_loop fit acquire objective n_iter (Suc i)
               (ego_iteration fit acquire objective doe f_min) (trace @ [f_min]))
      else Inr (i, doe, trace))"
  by pat_completeness auto
termination
  by (relation "measure (\<lambda>(fit, acquire, objective, n_iter, i, doe, trace). n_iter - i)") auto

declare ego_loop.simps [simp del]

text \<open>
  Modelled from the spec: the missing procedure as a whole, from the initial design; the
  last \<open>f_min\<close>, computed after the loop, closes the list of its values.
\<close>

definition EGO ::
  "(design \<Rightarrow> 'm) \<Rightarrow> ('m \<Rightarrow> real \<Rightarrow> real list) \<Rightarrow> (real list \<Rightarrow> real) \<Rightarrow> nat \<Rightarrow> design
     \<Rightarrow> py_error + nat \<times> design \<times> real list" where
  "EGO fit acquire objective n_iter doe =
     (case ego_loop fit acquire objective n_iter 0 doe [] of
        Inl e \<Rightarrow> Inl e
      | Inr (i, doe', trace) \<Rightarrow>
          (case np_min (map snd doe') of
             Inl e \<Rightarrow> Inl e
           | Inr f_min \<Rightarrow> Inr (i, doe', trace @ [f_min])))"

section \<open>Properties of the kernel and of the covariance matrix\<close>

lemma cov_list_Inr:
  "\<forall>q\<in>set points. cov_function p q theta sig = Inr (k q)
     \<Longrightarrow> cov_list p points theta sig = Inr (map k points)"
  by (induction points) auto

lemma cov_list_returns:
  "cov_list p points theta sig = Inr ks
     \<Longrightarrow> \<forall>q\<in>set points. \<exists>k. cov_function p q theta sig = Inr k"
  by (induction points arbitrary: ks) (auto split: sum.splits)

lemma cov_matrix_loop_Inr:
  "\<forall>e\<in>set es. \<forall>q\<in>set points. cov_function (snd e) q theta sig = Inr (k (snd e) q)
     \<Longrightarrow> cov_matrix_loop es points theta sig K
          = Inr (fold (\<lambda>e K. set_col K (fst e) (map (k (snd e)) points)) es K)"
proof (induction es arbitrary: K)
  case Nil
  then show ?case by simp
next
  case (Cons e es)
  obtain i p where e: "e = (i, p)" by (cases e)
  have "cov_list p points theta sig = Inr (map (k p) points)"
    using Cons.prems e by (intro cov_list_Inr) auto
  then show ?case using Cons e by simp
qed

lemma cov_matrix_loop_returns:
  "cov_matrix_loop es points theta sig K = Inr K'
     \<Longrightarrow> \<forall>e\<in>set es. \<forall>q\<in>set points. \<exists>k. cov_function (snd e) q theta sig = Inr k"
proof (induction es arbitrary: K)
  case Nil
  then show ?case by simp
next
  case (Cons e es)
  obtain i p where e: "e = (i, p)" by (cases e)
  from Cons.prems e obtain col where
    col: "cov_list p points theta sig = Inr col"
    and rest: "cov_matrix_loop es points theta sig (set_col K i col) = Inr K'"
    by (auto split: sum.splits)
  from cov_list_returns [OF col] Cons.IH [OF rest] e show ?case by simp
qed

lemma square_zeros: "square n (zeros n n)"
  by (simp add: square_def zeros_def)

lemma square_set_col:
  assumes "square n K" "length col = n"
  shows "square n (set_col K i col)"
  using assms by (auto simp: square_def set_col_def dest!: set_zip_leftD)

lemma set_col_nth:
  assumes "square n K" "length col = n" "j < n" "c < n"
  shows "set_col K i col ! j ! c = (if c = i then col ! j else K ! j ! c)"
  using assms by (simp add: square_def set_col_def)

lemma fold_set_col_square:
  "square n K \<Longrightarrow> length points = n
     \<Longrightarrow> square n (fold (\<lambda>e K. set_col K (fst e) (map (k (snd e)) points)) es K)"
  by (induction es arbitrary: K) (simp_all add: square_set_col)

lemma fold_set_col_nth:
  assumes "square n K" "length points = n" "j < n" "c < n"
  shows "fold (\<lambda>e K. set_col K (fst e) (map (k (snd e)) points)) (enumerate m ps) K ! j ! c
           = (if m \<le> c \<and> c < m + length ps then k (ps ! (c - m)) (points ! j) else K ! j ! c)"
  using assms
proof (induction ps arbitrary: m K)
  case Nil
  then show ?case by auto
next
  case (Cons p ps)
  have sq: "square n (set_col K m (map (k p) points))"
    using Cons.prems by (simp add: square_set_col)
  have nth: "set_col K m (map (k p) points) ! j ! c = (if c = m then k p (points ! j) else K ! j ! c)"
    using Cons.prems by (simp add: set_col_nth)
  show ?case
    using Cons.IH [OF sq Cons.prems(2-4), of "Suc m"] nth
    by (auto simp: nth_Cons' Suc_diff_le)
qed

lemma cov_matrix_Inr:
  assumes "\<forall>p\<in>set points. \<forall>q\<in>set points. cov_function p q theta sig = Inr (k p q)"
  shows "\<exists>K. cov_matrix points theta sig = Inr K \<and> square (length points) K \<and>
           (\<forall>j<length points. \<forall>c<length points. K ! j ! c = k (points ! c) (points ! j))"
proof -
  let ?n = "length points"
  let ?K = "fold (\<lambda>e K. set_col K (fst e) (map (k (snd e)) points)) (enumerate 0 points)
              (zeros ?n ?n)"
  have "\<forall>e\<in>set (enumerate 0 points). \<forall>q\<in>set points.
          cov_function (snd e) q theta sig = Inr (k (snd e) q)"
    using assms by (auto simp: in_set_enumerate_eq)
  then have run: "cov_matrix points theta sig = Inr ?K"
    unfolding cov_matrix_def by (rule cov_matrix_loop_Inr)
  have sq: "square ?n ?K"
    by (simp add: fold_set_col_square square_zeros)
  have "?K ! j ! c = k (points ! c) (points ! j)" if "j < ?n" "c < ?n" for j c
    using fold_set_col_nth [OF square_zeros refl that, of k 0 points] that by simp
  with run sq show ?thesis by blast
qed

text \<open>
  Whenever \<open>cov_matrix\<close> returns, the matrix is square and its entry \<open>(j, c)\<close> is the
  value \<open>cov_function\<close> returns for the stored points \<open>c\<close> and \<open>j\<close>.
\<close>

lemma cov_matrix_entries:
  assumes "cov_matrix points theta sig = Inr K"
  shows "square (length points) K"
    and "\<And>j c. j < length points \<Longrightarrow> c < length points
           \<Longrightarrow> cov_function (points ! c) (points ! j) theta sig = Inr (K ! j ! c)"
proof -
  define k where "k p q = projr (cov_function p q theta sig)" for p q
  have ret: "\<forall>e\<in>set (enumerate 0 points). \<forall>q\<in>set points.
          \<exists>v. cov_function (snd e) q theta sig = Inr v"
    using assms unfolding cov_matrix_def by (rule cov_matrix_loop_returns)
  have ok: "\<forall>p\<in>set points. \<forall>q\<in>set points. cov_function p q theta sig = Inr (k p q)"
  proof (intro ballI)
    fix p q assume p: "p \<in> set points" and q: "q \<in> set points"
    from p obtain i where "i < length points" "p = points ! i"
      by (auto simp: in_set_conv_nth)
    then have "(i, p) \<in> set (enumerate 0 points)"
      by (simp add: in_set_enumerate_eq)
    with ret q obtain v where "cov_function p q theta sig = Inr v" by fastforce
    then show "cov_function p q theta sig = Inr (k p q)" by (simp add: k_def)
  qed
  from cov_matrix_Inr [OF this] assms have
    sq: "square (length points) K"
    and ent: "\<forall>j<length points. \<forall>c<length points. K ! j ! c = k (points ! c) (points ! j)"
    by auto
  show "square (length points) K" by (rule sq)
  show "cov_function (points ! c) (points ! j) theta sig = Inr (K ! j ! c)"
    if "j < length points" "c < length points" for j c
    using ent ok that by simp
qed

text \<open>The kernel does not depend on the order of its two points, wrap-around or not.\<close>

lemma square_diff_swap:
  fixes u v :: "'a::comm_ring list"
  shows "map (\<lambda>w. w * w) (map2 (-) u v) = map (\<lambda>w. w * w) (map2 (-) v u)"
  by (induction u v rule: list_induct2') (simp_all add: algebra_simps)

lemma np_square_sub_commute:
  assumes "np_len p = np_len q"
  shows "\<exists>d d'. np_sub p q = Inr d \<and> np_sub q p = Inr d' \<and> np_square d = np_square d'"
proof (cases "\<exists>u v. p = IntArray u \<and> q = IntArray v")
  case True
  then obtain u v where pq: "p = IntArray u" "q = IntArray v" by blast
  then have len: "length u = length v" using assms by (simp add: np_len_def)
  have "map (\<lambda>w. w * w) (map2 (-) u v) = map (\<lambda>w. w * w) (map2 (-) v u)"
    by (rule square_diff_swap)
  then show ?thesis
    using len by (simp add: pq np_binop_def broadcastable_def broadcast_def del: map_map)
next
  case False
  have len: "length (as_float p) = length (as_float q)" using assms by (simp add: np_len_def)
  have sub: "np_sub p q = Inr (FloatArray (map2 (-) (as_float p) (as_float q)))"
    "np_sub q p = Inr (FloatArray (map2 (-) (as_float q) (as_float p)))"
    using False len
    by (cases p; cases q; simp add: np_binop_def broadcastable_def broadcast_def)+
  have "map (\<lambda>d. d\<^sup>2) (map2 (-) (as_float p) (as_float q))
          = map (\<lambda>d. d\<^sup>2) (map2 (-) (as_float q) (as_float p))"
    using square_diff_swap [of "as_float p" "as_float q"]
    by (simp only: power2_eq_square)
  then show ?thesis
    unfolding sub by (simp del: map_map)
qed

lemma cov_function_commute:
  assumes "np_len p = np_len q"
  shows "cov_function p q theta sig = cov_function q p theta sig"
proof -
  from np_square_sub_commute [OF assms] obtain d d' where
    "np_sub p q = Inr d" "np_sub q p = Inr d'" "np_square d = np_square d'"
    by blast
  then show ?thesis by (simp add: cov_function_def)
qed

text \<open>On finite entries the float products are the real ones.\<close>

lemma foldl_fadd_Finite: "foldl fadd (Finite a) (map Finite xs) = Finite (a + sum_list xs)"
  by (induction xs arbitrary: a) (simp_all add: add.assoc)

lemma np_sum_Finite: "np_sum (map Finite xs) = Finite (sum_list xs)"
  by (simp add: np_sum_def foldl_fadd_Finite)

lemma fdot_Finite: "fdot (map Finite u) (map Finite v) = Finite (dot u v)"
proof -
  have "map2 fmul (map Finite u) (map Finite v) = map Finite (map2 (*) u v)"
    by (induction u v rule: list_induct2') simp_all
  then show ?thesis by (simp only: fdot_def dot_def np_sum_Finite)
qed

lemma fmat_vec_Finite: "fmat_vec (map (map Finite) M) (map Finite v) = map Finite (mat_vec M v)"
  by (simp add: fmat_vec_def mat_vec_def fdot_Finite)

lemma gp_mean_Finite: "gp_mean (map Finite k) K_inv y = Finite (dot k (mat_vec K_inv y))"
  by (simp only: gp_mean_def fmat_vec_Finite fdot_Finite)

lemma gp_variance_Finite:
  "gp_variance (Finite k_xx) (map Finite k) K_inv = Finite (k_xx - dot k (mat_vec K_inv k))"
  by (simp only: gp_variance_def fmat_vec_Finite fdot_Finite) simp

lemma dot_sum:
  assumes "length u = n" "length v = n"
  shows "dot u v = (\<Sum>a<n. u ! a * v ! a)"
proof -
  have "dot u v = (\<Sum>a = 0..<length (map2 (*) u v). map2 (*) u v ! a)"
    unfolding dot_def by (rule sum_list_sum_nth)
  also have "\<dots> = (\<Sum>a<n. u ! a * v ! a)"
    using assms by (simp add: atLeast0LessThan)
  finally show ?thesis .
qed

lemma inverse_apply:
  assumes sq: "square n K_inv" and r: "length r = n" and v: "length v = n"
    and inv: "\<forall>b<n. dot r (column b K_inv) = (if b = i then 1 else 0)" and i: "i < n"
  shows "dot r (mat_vec K_inv v) = v ! i"
proof -
  have len: "length K_inv = n" and row: "\<And>a. a < n \<Longrightarrow> length (K_inv ! a) = n"
    using sq by (simp_all add: square_def)
  have "dot r (mat_vec K_inv v) = (\<Sum>a<n. r ! a * mat_vec K_inv v ! a)"
    using r len by (intro dot_sum) (simp_all add: mat_vec_def)
  also have "\<dots> = (\<Sum>a<n. r ! a * (\<Sum>b<n. K_inv ! a ! b * v ! b))"
    using len v row by (intro sum.cong refl) (simp add: mat_vec_def dot_sum [of _ n])
  also have "\<dots> = (\<Sum>a<n. \<Sum>b<n. r ! a * K_inv ! a ! b * v ! b)"
    by (simp add: sum_distrib_left mult.assoc)
  also have "\<dots> = (\<Sum>b<n. \<Sum>a<n. r ! a * K_inv ! a ! b * v ! b)"
    by (rule sum.swap)
  also have "\<dots> = (\<Sum>b<n. (\<Sum>a<n. r ! a * column b K_inv ! a) * v ! b)"
    using len by (simp add: sum_distrib_right column_def)
  also have "\<dots> = (\<Sum>b<n. dot r (column b K_inv) * v ! b)"
    using r len by (simp add: dot_sum [of _ n] column_def)
  also have "\<dots> = (\<Sum>b<n. (if b = i then 1 else 0) * v ! b)"
    using inv by (intro sum.cong refl) simp
  also have "\<dots> = v ! i"
    using i by (simp add: if_distrib [of "\<lambda>c. c * _"] cong: if_cong)
  finally show ?thesis .
qed

text \<open>
  On float arrays, and with a non-zero scalar length-scale, the kernel is the
  squared-exponential one and the matrix holds its values.
\<close>

lemma map2_pow: "map (\<lambda>d. d\<^sup>2) (map2 (-) xs ys) = map2 (\<lambda>a b. (a - b)\<^sup>2) xs (ys::real list)"
  by (induction xs ys rule: list_induct2') auto

lemma broadcast_scalar: "broadcast f xs [c] = map (\<lambda>a. f a c) xs"
proof (cases "length xs = 1")
  case True
  then obtain a where "xs = [a]" by (cases xs) auto
  then show ?thesis by (simp add: broadcast_def)
next
  case False
  then show ?thesis by (simp add: broadcast_def)
qed

lemma np_binop_scalar: "np_binop f xs [c] = Inr (map (\<lambda>a. f a c) xs)"
  by (simp add: np_binop_def broadcastable_def broadcast_scalar)

lemma sum_list_div_const: "sum_list (map (\<lambda>a. a / c) xs) = sum_list xs / (c::real)"
  by (induction xs) (auto simp: add_divide_distrib)

lemma cov_function_float_scalar:
  assumes "l \<noteq> 0" "length x = length y"
  shows "cov_function (FloatArray x) (FloatArray y) (FloatArray [l]) sig
           = Inr (Finite (sig\<^sup>2 * exp (- (sq_dist x y / l\<^sup>2))))"
proof -
  have d: "np_sub (FloatArray x) (FloatArray y) = Inr (FloatArray (map2 (-) x y))"
    using assms by (simp add: np_binop_def broadcastable_def broadcast_def)
  have q: "np_true_divide (np_square (FloatArray (map2 (-) x y))) (np_square (FloatArray [l]))
             = Inr (map Finite (map (\<lambda>a. a / l\<^sup>2) (map2 (\<lambda>a b. (a - b)\<^sup>2) x y)))"
    using assms(1)
    by (simp only: np_true_divide_def np_square.simps as_float.simps list.map np_binop_scalar
        map2_pow) (simp add: fdiv_def)
  have s: "sum_list (map (\<lambda>a. a / l\<^sup>2) (map2 (\<lambda>a b. (a - b)\<^sup>2) x y)) = sq_dist x y / l\<^sup>2"
    unfolding sum_list_div_const sq_dist_def ..
  show ?thesis
    unfolding cov_function_def d sum.case Let_def q np_sum_Finite s by simp
qed

lemma sq_dist_commute: "sq_dist x y = sq_dist y x"
proof -
  have "map2 (\<lambda>a b. (a - b)\<^sup>2) x y = map2 (\<lambda>a b. (a - b)\<^sup>2) y x"
    by (induction x y rule: list_induct2') (auto simp: power2_commute)
  then show ?thesis by (simp add: sq_dist_def)
qed

lemma cov_matrix_float_scalar:
  assumes "l \<noteq> 0" and "\<forall>p\<in>set points. length p = d"
  shows "\<exists>K. cov_matrix (map FloatArray points) (FloatArray [l]) sig = Inr K \<and>
           length K = length points \<and>
           (\<forall>i<length points. length (K ! i) = length points \<and>
              (\<forall>j<length points.
                 K ! i ! j = Finite (sig\<^sup>2 * exp (- (sq_dist (points ! i) (points ! j) / l\<^sup>2)))))"
proof -
  let ?k = "\<lambda>p q. Finite (sig\<^sup>2 * exp (- (sq_dist (as_float p) (as_float q) / l\<^sup>2)))"
  have "\<forall>p\<in>set (map FloatArray points). \<forall>q\<in>set (map FloatArray points).
          cov_function p q (FloatArray [l]) sig = Inr (?k p q)"
    using assms by (auto simp: cov_function_float_scalar)
  from cov_matrix_Inr [OF this] obtain K where
    K: "cov_matrix (map FloatArray points) (FloatArray [l]) sig = Inr K"
      "square (length points) K"
      "\<forall>j<length points. \<forall>c<length points.
         K ! j ! c = ?k (map FloatArray points ! c) (map FloatArray points ! j)"
    by auto
  have "length (K ! i) = length points" if "i < length points" for i
    using K(2) that by (simp add: square_def)
  moreover have "K ! i ! j = Finite (sig\<^sup>2 * exp (- (sq_dist (points ! i) (points ! j) / l\<^sup>2)))"
    if "i < length points" "j < length points" for i j
    using K(3) that by (simp add: sq_dist_commute)
  ultimately show ?thesis
    using K(1,2) by (simp add: square_def)
qed

text \<open>
  On the integer arrays of the notebook itself nothing wraps around: for its first two
  stored points, \<open>0\<close> and \<open>11\<close>, with its \<open>theta = [3]\<close> and \<open>sig = 1\<close>, the kernel value
  is \<open>exp (- 11\<^sup>2 / 3\<^sup>2)\<close>.
\<close>

lemma cov_function_notebook_points:
  "cov_function (IntArray [0]) (IntArray [11]) (IntArray [3]) 1 = Inr (Finite (exp (- (121 / 9))))"
  by (simp add: cov_function_def np_binop_def broadcastable_def broadcast_def
      np_true_divide_def np_sum_def fdiv_def)

section \<open>The Gaussian-process claims\<close>

text \<open>
  Claim C7, which fails on integer arrays, the kind of array the notebook passes. The
  notebook states the kernel as \<open>k(x,x') = \<sigma>\<^sub>f\<^sup>2 exp (- (x - x')\<^sup>2 / l\<^sup>2)\<close>. For the
  one-coordinate points \<open>0\<close> and \<open>4294967296\<close>, the length-scale \<open>1\<close> and the amplitude
  \<open>2\<close>, the square of the difference wraps around to \<open>0\<close> in 64 bits and
  \<open>cov_function\<close> returns \<open>4\<close>, the value for two equal points, where the kernel has
  the value \<open>4 * exp (- 4294967296\<^sup>2)\<close>, which is less.
\<close>

theorem cov_function_wraps_on_integer_points:
  "cov_function (IntArray [0]) (IntArray [4294967296]) (IntArray [1]) 2 = Inr (Finite 4) \<and>
   as_float (IntArray [0]) = [0] \<and> as_float (IntArray [4294967296]) = [4294967296] \<and>
   as_float (IntArray [1]) = [1] \<and>
   2\<^sup>2 * exp (- (sq_dist [0] [4294967296] / 1\<^sup>2)) < (4::real)"
proof -
  have "cov_function (IntArray [0]) (IntArray [4294967296]) (IntArray [1]) 2 = Inr (Finite 4)"
    by (simp add: cov_function_def np_binop_def broadcastable_def broadcast_def
        np_true_divide_def np_sum_def fdiv_def)
  moreover have "2\<^sup>2 * exp (- (sq_dist [0] [4294967296] / 1\<^sup>2)) < (4::real)"
    by (simp add: sq_dist_def)
  ultimately show ?thesis by simp
qed

text \<open>
  Claim C10, which fails on integer arrays, the kind of array the notebook passes. For
  the single stored point \<open>3\<close>, the positive length-scale \<open>4294967296\<close> and the
  amplitude \<open>2\<close>, the square of the length-scale wraps around to \<open>0\<close> in 64 bits, the
  quotient is \<open>0 / 0\<close> and the one diagonal entry of the matrix that \<open>cov_matrix\<close>
  returns is not-a-number, not \<open>2\<^sup>2\<close>.
\<close>

theorem cov_matrix_diagonal_not_a_number:
  "cov_matrix [IntArray [3]] (IntArray [4294967296]) 2 = Inr [[NaN]] \<and>
   as_float (IntArray [4294967296]) = [4294967296] \<and>
   np_square (IntArray [4294967296]) = IntArray [0] \<and>
   NaN \<noteq> Finite (2\<^sup>2)"
  by (simp add: cov_matrix_def cov_function_def np_binop_def broadcastable_def broadcast_def
      np_true_divide_def np_sum_def fdiv_def zeros_def set_col_def)

text \<open>
  Claim C2. For pairwise-distinct stored points of one dimension, positive \<open>theta\<close>
  and \<open>sig\<close>, a covariance matrix of the stored points whose entries are finite, and an
  inverse \<open>K_inv\<close> of it: at the stored point \<open>x_data ! i\<close> the predicted mean is the
  observed value \<open>y_data ! i\<close> and the predicted variance is \<open>0\<close> (already before
  clamping). The stored points and \<open>theta\<close> may be integer or float arrays.
\<close>

theorem gp_interpolates_data:
  assumes "distinct x_data" and dim: "\<forall>p\<in>set x_data. np_len p = d"
    and "\<forall>t\<in>set (as_float theta). 0 < t" and "0 < sig"
    and fit: "cov_matrix x_data theta sig = Inr (map (map Finite) K)"
    and inv: "is_inverse K K_inv"
    and y: "length y_data = length x_data" and i: "i < length x_data"
  shows "\<exists>k_star k_xx.
           cov_vect (x_data ! i) x_data theta sig = Inr (map Finite k_star) \<and>
           cov_function (x_data ! i) (x_data ! i) theta sig = Inr (Finite k_xx) \<and>
           gp_mean (map Finite k_star) K_inv y_data = Finite (y_data ! i) \<and>
           gp_variance (Finite k_xx) (map Finite k_star) K_inv = Finite 0 \<and>
           myGPpredict (x_data ! i) x_data y_data K_inv theta sig
             = Inr (Finite (y_data ! i), Finite 0)"
proof -
  let ?n = "length x_data"
  let ?Kf = "map (map Finite) K"
  have sqf: "square ?n ?Kf" using fit by (rule cov_matrix_entries)
  then have lenK: "length K = ?n" and rows: "\<And>j. j < ?n \<Longrightarrow> length (K ! j) = ?n"
    by (auto simp: square_def)
  have ent: "?Kf ! j ! c = Finite (K ! j ! c)" if "j < ?n" "c < ?n" for j c
    using that lenK rows by simp
  have ker: "cov_function (x_data ! c) (x_data ! j) theta sig = Inr (Finite (K ! j ! c))"
    if "j < ?n" "c < ?n" for j c
    using cov_matrix_entries(2) [OF fit that] ent [OF that] by simp
  have same: "np_len (x_data ! a) = np_len (x_data ! b)" if "a < ?n" "b < ?n" for a b
    using dim that by simp
  have sym: "K ! i ! c = K ! c ! i" if "c < ?n" for c
    using ker [OF i that] ker [OF that i] cov_function_commute [OF same [OF i that], of theta sig]
    by simp
  have "\<forall>q\<in>set x_data. cov_function (x_data ! i) q theta sig
          = Inr (projr (cov_function (x_data ! i) q theta sig))"
  proof
    fix q assume "q \<in> set x_data"
    then obtain j where j: "j < ?n" "q = x_data ! j" by (auto simp: in_set_conv_nth)
    then show "cov_function (x_data ! i) q theta sig
                 = Inr (projr (cov_function (x_data ! i) q theta sig))"
      using ker [OF j(1) i] by simp
  qed
  then have vect: "cov_vect (x_data ! i) x_data theta sig
                     = Inr (map (\<lambda>q. projr (cov_function (x_data ! i) q theta sig)) x_data)"
    unfolding cov_vect_def by (rule cov_list_Inr)
  have star: "map (\<lambda>q. projr (cov_function (x_data ! i) q theta sig)) x_data
                = map Finite (K ! i)"
  proof (rule nth_equalityI)
    show "length (map (\<lambda>q. projr (cov_function (x_data ! i) q theta sig)) x_data)
            = length (map Finite (K ! i))"
      using rows [OF i] by simp
  next
    fix c assume "c < length (map (\<lambda>q. projr (cov_function (x_data ! i) q theta sig)) x_data)"
    then have c: "c < ?n" by simp
    have "cov_function (x_data ! i) (x_data ! c) theta sig = Inr (Finite (K ! i ! c))"
      using ker [OF c i] sym [OF c] by simp
    then show "map (\<lambda>q. projr (cov_function (x_data ! i) q theta sig)) x_data ! c
                 = map Finite (K ! i) ! c"
      using c rows [OF i] by simp
  qed
  have kxx: "cov_function (x_data ! i) (x_data ! i) theta sig = Inr (Finite (K ! i ! i))"
    using ker [OF i i] .
  have sqi: "square ?n K_inv"
    and unit: "\<forall>b<?n. dot (K ! i) (column b K_inv) = (if b = i then 1 else 0)"
    using inv i lenK by (auto simp: is_inverse_def)
  have "dot (K ! i) (mat_vec K_inv y_data) = y_data ! i"
    using sqi rows [OF i] y unit i by (rule inverse_apply)
  then have mean: "gp_mean (map Finite (K ! i)) K_inv y_data = Finite (y_data ! i)"
    by (simp only: gp_mean_Finite)
  have "dot (K ! i) (mat_vec K_inv (K ! i)) = K ! i ! i"
    using sqi rows [OF i] rows [OF i] unit i by (rule inverse_apply)
  then have var: "gp_variance (Finite (K ! i ! i)) (map Finite (K ! i)) K_inv = Finite 0"
    by (simp only: gp_variance_Finite) simp
  have "myGPpredict (x_data ! i) x_data y_data K_inv theta sig
          = Inr (Finite (y_data ! i), Finite 0)"
    by (simp add: myGPpredict_def vect star kxx mean var del: map_map)
  with vect star kxx mean var show ?thesis
    by (intro exI [of _ "K ! i"] exI [of _ "K ! i ! i"]) (simp del: map_map)
qed

theorem gp_interpolates_data_witness:
  "myGPpredict (IntArray [1]) [IntArray [0], IntArray [1]] [5, 7]
     [[1 / (1 - (exp (- 1))\<^sup>2), - exp (- 1) / (1 - (exp (- 1))\<^sup>2)],
      [- exp (- 1) / (1 - (exp (- 1))\<^sup>2), 1 / (1 - (exp (- 1))\<^sup>2)]] (IntArray [1]) 1
     = Inr (Finite 7, Finite 0)"
proof -
  define a :: real where "a = exp (- 1)"
  have a: "0 < a" "a < 1" by (simp_all add: a_def)
  then have "a * a < 1 * 1" by (intro mult_strict_mono) simp_all
  then have nz: "1 - a\<^sup>2 \<noteq> 0" by (simp add: power2_eq_square)
  let ?K = "[[1, a], [a, 1]]"
  let ?Ki = "[[1 / (1 - a\<^sup>2), - a / (1 - a\<^sup>2)], [- a / (1 - a\<^sup>2), 1 / (1 - a\<^sup>2)]]"
  have h1: "distinct [IntArray [0], IntArray [1]]"
    "\<forall>p\<in>set [IntArray [0], IntArray [1]]. np_len p = 1"
    "\<forall>t\<in>set (as_float (IntArray [1])). 0 < t" "(0::real) < 1"
    by (simp_all add: np_len_def)
  have h2: "cov_matrix [IntArray [0], IntArray [1]] (IntArray [1]) 1 = Inr (map (map Finite) ?K)"
    by (simp add: cov_matrix_def cov_function_def np_binop_def broadcastable_def broadcast_def
        np_true_divide_def np_sum_def fdiv_def zeros_def set_col_def a_def)
  have h3: "is_inverse ?K ?Ki"
    using nz by (simp add: is_inverse_def square_def dot_def column_def less_Suc_eq
        power2_eq_square field_simps)
  have h4: "length [5, 7 :: real] = length [IntArray [0], IntArray [1]]"
    "1 < length [IntArray [0], IntArray [1]]"
    by simp_all
  from gp_interpolates_data [OF h1 h2 h3 h4] show ?thesis
    by (auto simp: a_def)
qed

section \<open>Properties of the naive Bayes scores\<close>

lemma norm_pdf_pos_iff: "0 < norm_pdf x loc scale \<longleftrightarrow> 0 < scale"
  by (simp add: norm_pdf_def zero_less_divide_iff zero_less_mult_iff)

lemma norm_logpdf_ln:
  assumes "0 < scale"
  shows "norm_logpdf x loc scale = ln (norm_pdf x loc scale)"
  using assms by (simp add: norm_logpdf_def norm_pdf_def ln_div ln_mult)

lemma nb_score_foldl_pos:
  assumes "0 < s" "\<forall>(x, mu, sd)\<in>set feats. 0 < norm_pdf x mu sd"
  shows "0 < foldl (\<lambda>s (x, mu, sd). s * norm_pdf x mu sd) s feats"
  using assms by (induction feats arbitrary: s) auto

lemma nb_log_score_foldl:
  assumes "0 < s" "\<forall>(x, mu, sd)\<in>set feats. 0 < norm_pdf x mu sd"
  shows "foldl (\<lambda>s (x, mu, sd). s + norm_logpdf x mu sd) (ln s) feats
           = ln (foldl (\<lambda>s (x, mu, sd). s * norm_pdf x mu sd) s feats)"
  using assms
proof (induction feats arbitrary: s)
  case Nil
  then show ?case by simp
next
  case (Cons f feats)
  obtain x mu sd where f: "f = (x, mu, sd)" by (cases f)
  have p: "0 < norm_pdf x mu sd" using Cons.prems(2) f by simp
  then have sd: "0 < sd" by (simp add: norm_pdf_pos_iff)
  have "ln s + norm_logpdf x mu sd = ln (s * norm_pdf x mu sd)"
    using Cons.prems(1) p sd by (simp add: norm_logpdf_ln ln_mult)
  moreover have "0 < s * norm_pdf x mu sd" using Cons.prems(1) p by simp
  ultimately show ?case
    using Cons.IH [of "s * norm_pdf x mu sd"] Cons.prems(2) f by simp
qed

lemma nb_score_pos:
  assumes "0 < prior" "\<forall>(x, mu, sd)\<in>set feats. 0 < norm_pdf x mu sd"
  shows "0 < nb_score prior feats"
  unfolding nb_score_def using assms by (rule nb_score_foldl_pos)

lemma nb_log_score_ln:
  assumes "0 < prior" "\<forall>(x, mu, sd)\<in>set feats. 0 < norm_pdf x mu sd"
  shows "nb_log_score prior feats = ln (nb_score prior feats)"
  unfolding nb_score_def nb_log_score_def using assms by (rule nb_log_score_foldl)

lemma score_M_nb: "score_M = nb_score pS0 [(H, mu_HS0, std_HS0), (W, mu_WS0, std_WS0), (F, mu_FS0, std_FS0)]"
  by (simp add: score_M_def nb_score_def)

lemma log_score_M_nb: "log_score_M = nb_log_score pS0 [(H, mu_HS0, std_HS0), (W, mu_WS0, std_WS0), (F, mu_FS0, std_FS0)]"
  by (simp add: log_score_M_def nb_log_score_def)

lemma score_F_nb: "score_F = nb_score pS1 [(H, mu_HS1, std_HS1), (W, mu_WS1, std_WS1), (F, mu_FS1, std_FS1)]"
  by (simp add: score_F_def nb_score_def)

lemma log_score_F_nb: "log_score_F = nb_log_score pS1 [(H, mu_HS1, std_HS1), (W, mu_WS1, std_WS1), (F, mu_FS1, std_FS1)]"
  by (simp add: log_score_F_def nb_log_score_def)

lemma proba_posterior: "[proba_M, proba_F] = posterior [score_M, score_F]"
  by (simp add: proba_M_def proba_F_def posterior_def)

lemma sum_list_posterior:
  assumes "sum_list scores \<noteq> 0"
  shows "sum_list (posterior scores) = 1"
proof -
  have "sum_list (map (\<lambda>s. s / c) scores) = sum_list scores / c" for c :: real
    by (induction scores) (simp_all add: add_divide_distrib)
  then show ?thesis using assms by (simp add: posterior_def)
qed

lemma softmax_shift:
  assumes "\<forall>s\<in>set scores. 0 < s"
  shows "map (\<lambda>e. e / sum_list (map (\<lambda>a. exp (a - m)) (map ln scores))) (map (\<lambda>a. exp (a - m)) (map ln scores))
           = posterior scores"
proof -
  have e: "map (\<lambda>a. exp (a - m)) (map ln scores) = map (\<lambda>s. s * exp (- m)) scores"
    using assms by (induction scores) (simp_all add: exp_diff exp_minus divide_inverse)
  have s: "sum_list (map (\<lambda>s. s * c) scores) = sum_list scores * c" for c :: real
    by (induction scores) (simp_all add: distrib_right)
  show ?thesis
    unfolding e s posterior_def by simp
qed

lemma posterior_softmax:
  assumes "\<forall>s\<in>set scores. 0 < s"
  shows "softmax_posterior (map ln scores) = posterior scores"
proof (cases scores)
  case Nil
  then show ?thesis by (simp add: softmax_posterior_def posterior_def)
next
  case (Cons s ss)
  have "softmax_posterior (map ln scores)
          = map (\<lambda>e. e / sum_list (map (\<lambda>a. exp (a - fold max (map ln ss) (ln s))) (map ln scores)))
              (map (\<lambda>a. exp (a - fold max (map ln ss) (ln s))) (map ln scores))"
    unfolding softmax_posterior_def Cons by (simp add: Let_def del: map_map)
  then show ?thesis using softmax_shift [OF assms] by simp
qed

lemma argmax_loop_map:
  assumes "\<forall>a\<in>set (v # xs). \<forall>b\<in>set (v # xs). f a < f b \<longleftrightarrow> a < b"
  shows "argmax_loop i best (f v) (map f xs) = argmax_loop i best v xs"
  using assms by (induction xs arbitrary: i best v) auto

lemma np_argmax_map:
  assumes "\<forall>a\<in>set xs. \<forall>b\<in>set xs. f a < f b \<longleftrightarrow> a < b"
  shows "np_argmax (map f xs) = np_argmax xs"
proof (cases xs)
  case Nil
  then show ?thesis by (simp add: np_argmax_def)
next
  case (Cons v rest)
  then show ?thesis
    using assms argmax_loop_map [of v rest f 1 0] by (simp add: np_argmax_def)
qed

lemma sum_list_positive:
  assumes "xs \<noteq> []" "\<forall>x\<in>set xs. 0 < (x::real)"
  shows "0 < sum_list xs"
  using assms by (induction xs rule: list_nonempty_induct) (simp_all add: add_pos_pos)

lemma np_argmax_posterior:
  assumes "\<forall>s\<in>set scores. 0 < s"
  shows "np_argmax (posterior scores) = np_argmax scores"
    and "np_argmax (map ln scores) = np_argmax scores"
proof -
  show "np_argmax (map ln scores) = np_argmax scores"
    using assms by (intro np_argmax_map) simp
  show "np_argmax (posterior scores) = np_argmax scores"
  proof (cases "scores = []")
    case True
    then show ?thesis by (simp add: posterior_def)
  next
    case False
    then have "0 < sum_list scores"
      using assms by (rule sum_list_positive)
    then show ?thesis
      unfolding posterior_def by (intro np_argmax_map) (simp add: divide_less_cancel)
  qed
qed

section \<open>The worked example: bounds on the log-scores\<close>

lemma sin_poly_16:
  "(\<Sum>m<16. sin_coeff m * x ^ m) =
     x - x^3 / 6 + x^5 / 120 - x^7 / 5040 + x^9 / 362880 - x^11 / 39916800
       + x^13 / 6227020800 - x^15 / 1307674368000"
  by (simp add: eval_nat_numeral sin_coeff_Suc cos_coeff_Suc)

lemma pi_lower: "3.14 < pi"
proof (rule ccontr)
  assume "\<not> 3.14 < pi"
  then have "pi \<le> 3.14" by simp
  moreover have "(3.14::real) < 2 * pi" using pi_ge_two by simp
  ultimately have le: "sin (3.14::real) \<le> 0" by (rule sin_le_zero)
  have "\<bar>sin (3.14::real) - (\<Sum>m<16. sin_coeff m * 3.14 ^ m)\<bar> \<le> inverse (fact 16) * \<bar>3.14\<bar> ^ 16"
    by (rule Maclaurin_sin_bound)
  then have "(\<Sum>m<16. sin_coeff m * 3.14 ^ m) - inverse (fact 16) * \<bar>3.14\<bar> ^ 16 \<le> sin (3.14::real)"
    by linarith
  moreover have "0 < (\<Sum>m<16. sin_coeff m * 3.14 ^ m) - inverse (fact 16) * \<bar>3.14::real\<bar> ^ 16"
    unfolding sin_poly_16 by (simp add: fact_numeral power_divide)
  ultimately show False using le by linarith
qed

lemma pi_upper: "pi < 3.142"
proof (rule ccontr)
  assume "\<not> pi < 3.142"
  then have "3.142 \<le> pi" by simp
  then have ge: "0 \<le> sin (3.142::real)" by (intro sin_ge_zero) simp_all
  have "\<bar>sin (3.142::real) - (\<Sum>m<16. sin_coeff m * 3.142 ^ m)\<bar> \<le> inverse (fact 16) * \<bar>3.142\<bar> ^ 16"
    by (rule Maclaurin_sin_bound)
  then have "sin (3.142::real) \<le> (\<Sum>m<16. sin_coeff m * 3.142 ^ m) + inverse (fact 16) * \<bar>3.142\<bar> ^ 16"
    by linarith
  moreover have "(\<Sum>m<16. sin_coeff m * 3.142 ^ m) + inverse (fact 16) * \<bar>3.142::real\<bar> ^ 16 < 0"
    unfolding sin_poly_16 by (simp add: fact_numeral power_divide)
  ultimately show False using ge by linarith
qed

lemma dataM_eq: "dataM = [[0, 1.82, 82, 30], [0, 1.8, 86, 28], [0, 1.7, 77, 30], [0, 1.8, 75, 25]]"
  by (simp add: dataM_def data_def)

lemma dataF_eq: "dataF = [[1, 1.52, 45, 15], [1, 1.65, 68, 20], [1, 1.68, 59, 18], [1, 1.75, 68, 23], [1, 1.58, 49, 19]]"
  by (simp add: dataF_def data_def)

lemma priors: "pS0 = 4 / 9" "pS1 = 5 / 9"
  by (simp_all add: pS0_def pS1_def dataM_eq dataF_eq) (simp_all add: data_def)

lemma means_M: "mu_HS0 = 1.78" "mu_WS0 = 80" "mu_FS0 = 28.25"
  by (simp_all add: mu_HS0_def mu_WS0_def mu_FS0_def dataM_eq column_def np_mean_def)

lemma means_F: "mu_HS1 = 1.636" "mu_WS1 = 57.8" "mu_FS1 = 19"
  by (simp_all add: mu_HS1_def mu_WS1_def mu_FS1_def dataF_eq column_def np_mean_def)

lemma stds_M: "std_HS0 = sqrt 0.0022" "std_WS0 = sqrt 18.5" "std_FS0 = sqrt 4.1875"
  by (simp_all add: std_HS0_def std_WS0_def std_FS0_def dataM_eq column_def np_mean_def np_std_def power2_eq_square)

lemma stds_F: "std_HS1 = sqrt 0.006344" "std_WS1 = sqrt 90.16" "std_FS1 = sqrt 6.8"
  by (simp_all add: std_HS1_def std_WS1_def std_FS1_def dataF_eq column_def np_mean_def np_std_def power2_eq_square)

lemma norm_logpdf_sqrt:
  assumes "0 < v"
  shows "norm_logpdf x mu (sqrt v) = - ((x - mu)\<^sup>2 / (2 * v)) - ln (2 * pi) / 2 - ln v / 2"
proof -
  have "((x - mu) / sqrt v)\<^sup>2 = (x - mu)\<^sup>2 / v"
    using assms by (simp add: power_divide)
  moreover have "ln (sqrt (2 * pi)) = ln (2 * pi) / 2" by (intro ln_sqrt) simp
  moreover have "ln (sqrt v) = ln v / 2" using assms by (intro ln_sqrt) simp
  ultimately show ?thesis by (simp add: norm_logpdf_def)
qed

lemma ln_class_constant:
  assumes "0 < p" "0 < v1" "0 < v2" "0 < v3"
  shows "ln (p\<^sup>2 / (8 * (v1 * v2 * v3)) / pi ^ 3)
           = 2 * ln p - 3 * ln (2 * pi) - ln v1 - ln v2 - ln v3"
proof -
  have "p\<^sup>2 / (8 * (v1 * v2 * v3)) / pi ^ 3 = p\<^sup>2 / ((2 * pi) ^ 3 * v1 * v2 * v3)"
    by (simp add: power_mult_distrib)
  also have "ln \<dots> = ln (p\<^sup>2) - (ln ((2 * pi) ^ 3) + ln v1 + ln v2 + ln v3)"
    using assms by (simp add: ln_div ln_mult del: ln_realpow)
  also have "\<dots> = 2 * ln p - 3 * ln (2 * pi) - ln v1 - ln v2 - ln v3"
  proof -
    have "ln (p\<^sup>2) = 2 * ln p" using assms by (simp add: ln_realpow)
    moreover have "ln ((2 * pi) ^ 3) = 3 * ln (2 * pi)"
      by (subst ln_realpow) simp_all
    ultimately show ?thesis by (simp only:)
  qed
  finally show ?thesis .
qed

lemma log_score_M_eq:
  "log_score_M = ln ((4 / 9)\<^sup>2 / (8 * (0.0022 * 18.5 * 4.1875)) / pi ^ 3) / 2
                   - (9 / 44 + 441 / 37 + 841 / 134)"
proof -
  have "norm_logpdf H mu_HS0 std_HS0 = - (9 / 44) - ln (2 * pi) / 2 - ln 0.0022 / 2"
    unfolding H_def means_M stds_M by (subst norm_logpdf_sqrt) (simp_all add: power2_eq_square)
  moreover have "norm_logpdf W mu_WS0 std_WS0 = - (441 / 37) - ln (2 * pi) / 2 - ln 18.5 / 2"
    unfolding W_def means_M stds_M by (subst norm_logpdf_sqrt) (simp_all add: power2_eq_square)
  moreover have "norm_logpdf F mu_FS0 std_FS0 = - (841 / 134) - ln (2 * pi) / 2 - ln 4.1875 / 2"
    unfolding F_def means_M stds_M by (subst norm_logpdf_sqrt) (simp_all add: power2_eq_square)
  moreover have "ln ((4 / 9)\<^sup>2 / (8 * (0.0022 * 18.5 * 4.1875)) / pi ^ 3)
           = 2 * ln (4 / 9) - 3 * ln (2 * pi) - ln 0.0022 - ln 18.5 - ln (4.1875::real)"
    by (rule ln_class_constant) simp_all
  ultimately show ?thesis
    unfolding log_score_M_def priors by (simp only:) argo
qed

lemma exp_lower_bound:
  assumes "even n"
  shows "(\<Sum>m<n. x ^ m / fact m) \<le> exp (x::real)"
proof -
  obtain t where "exp x = (\<Sum>m<n. x ^ m / fact m) + exp t / fact n * x ^ n"
    using Maclaurin_exp_le [of x n] by blast
  moreover have "0 \<le> exp t / fact n * x ^ n"
    using assms by (simp add: zero_le_even_power)
  ultimately show ?thesis by linarith
qed

lemma exp_poly8_le: "exp_poly8 y \<le> exp y"
proof -
  have "(\<Sum>m<8. y ^ m / fact m) = exp_poly8 y"
    by (simp add: eval_nat_numeral exp_poly8_def)
  then show ?thesis using exp_lower_bound [of 8 y] by simp
qed

lemma pow8_le_exp:
  assumes "0 \<le> r" "r \<le> exp_poly8 y"
  shows "r ^ 8 \<le> exp (8 * y)"
proof -
  have "r \<le> exp y" using assms(2) exp_poly8_le [of y] by linarith
  then have "r ^ 8 \<le> exp y ^ 8" using assms(1) by (rule power_mono)
  also have "\<dots> = exp (8 * y)" using exp_of_nat_mult [of 8 y] by simp
  finally show ?thesis .
qed

lemma ln_over_pi3_lower:
  assumes "0 < c" "0 < r" "r \<le> exp_poly8 y" "3.142 ^ 3 < c * r ^ 8"
  shows "- (8 * y) < ln (c / pi ^ 3)"
proof -
  have r8: "0 < r ^ 8" using assms(2) by simp
  have "pi ^ 3 < 3.142 ^ 3" using pi_upper by (intro power_strict_mono) simp_all
  then have "pi ^ 3 < c * r ^ 8" using assms(4) by linarith
  then have "1 / r ^ 8 < c / pi ^ 3" using r8 by (simp add: field_simps)
  moreover have "exp (- (8 * y)) \<le> 1 / r ^ 8"
  proof -
    have "r ^ 8 \<le> exp (8 * y)" using assms(2,3) by (intro pow8_le_exp) simp_all
    then have "1 / exp (8 * y) \<le> 1 / r ^ 8" using r8 by (intro divide_left_mono) simp_all
    then show ?thesis by (simp add: exp_minus inverse_eq_divide)
  qed
  ultimately have "exp (- (8 * y)) < c / pi ^ 3" by linarith
  moreover have "0 < c / pi ^ 3" using assms(1) by simp
  ultimately show ?thesis by (metis exp_ln exp_less_cancel_iff)
qed

lemma ln_over_pi3_upper:
  assumes "0 < c" "0 \<le> r" "r \<le> exp_poly8 y" "c < 3.14 ^ 3 * r ^ 8"
  shows "ln (c / pi ^ 3) < 8 * y"
proof -
  have "(3.14::real) ^ 3 \<le> pi ^ 3" using pi_lower by (intro power_mono) simp_all
  moreover have "0 \<le> r ^ 8" using assms(2) by simp
  ultimately have "3.14 ^ 3 * r ^ 8 \<le> pi ^ 3 * r ^ 8" by (rule mult_right_mono)
  then have "c < pi ^ 3 * r ^ 8" using assms(4) by linarith
  then have "c / pi ^ 3 < r ^ 8" by (simp add: field_simps)
  also have "r ^ 8 \<le> exp (8 * y)" using assms(2,3) by (rule pow8_le_exp)
  finally have "c / pi ^ 3 < exp (8 * y)" .
  moreover have "0 < c / pi ^ 3" using assms(1) by simp
  ultimately show ?thesis by (metis exp_ln exp_less_cancel_iff)
qed

lemma log_score_M_bounds: "- 21.09 < log_score_M" "log_score_M < - 21.07"
proof -
  let ?c = "(4 / 9)\<^sup>2 / (8 * (0.0022 * 18.5 * 4.1875)) :: real"
  have "- (8 * (269 / 400)) < ln (?c / pi ^ 3)"
    by (rule ln_over_pi3_lower [where r = "1.9591"]) (simp_all add: exp_poly8_def power_divide)
  then show "- 21.09 < log_score_M" unfolding log_score_M_eq by simp
  have "ln (?c / pi ^ 3) < 8 * (- 107 / 160)"
    by (rule ln_over_pi3_upper [where r = "0.5123"]) (simp_all add: exp_poly8_def power_divide)
  then show "log_score_M < - 21.07" unfolding log_score_M_eq by simp
qed

lemma log_score_F_eq:
  "log_score_F = ln ((5 / 9)\<^sup>2 / (8 * (0.006344 * 90.16 * 6.8)) / pi ^ 3) / 2
                   - (7569 / 3172 + 9 / 1127 + 5 / 17)"
proof -
  have "norm_logpdf H mu_HS1 std_HS1 = - (7569 / 3172) - ln (2 * pi) / 2 - ln 0.006344 / 2"
    unfolding H_def means_F stds_F by (subst norm_logpdf_sqrt) (simp_all add: power2_eq_square)
  moreover have "norm_logpdf W mu_WS1 std_WS1 = - (9 / 1127) - ln (2 * pi) / 2 - ln 90.16 / 2"
    unfolding W_def means_F stds_F by (subst norm_logpdf_sqrt) (simp_all add: power2_eq_square)
  moreover have "norm_logpdf F mu_FS1 std_FS1 = - (5 / 17) - ln (2 * pi) / 2 - ln 6.8 / 2"
    unfolding F_def means_F stds_F by (subst norm_logpdf_sqrt) (simp_all add: power2_eq_square)
  moreover have "ln ((5 / 9)\<^sup>2 / (8 * (0.006344 * 90.16 * 6.8)) / pi ^ 3)
           = 2 * ln (5 / 9) - 3 * ln (2 * pi) - ln 0.006344 - ln 90.16 - ln (6.8::real)"
    by (rule ln_class_constant) simp_all
  ultimately show ?thesis
    unfolding log_score_F_def priors by (simp only:) argo
qed

lemma log_score_F_bounds: "- 6.72 < log_score_F" "log_score_F < - 6.70"
proof -
  let ?c = "(5 / 9)\<^sup>2 / (8 * (0.006344 * 90.16 * 6.8)) :: real"
  have "- (8 * (403 / 400)) < ln (?c / pi ^ 3)"
    by (rule ln_over_pi3_lower [where r = "2.7387"]) (simp_all add: exp_poly8_def power_divide)
  then show "- 6.72 < log_score_F" unfolding log_score_F_eq by simp
  have "ln (?c / pi ^ 3) < 8 * (- 803 / 800)"
    by (rule ln_over_pi3_upper [where r = "0.3664"]) (simp_all add: exp_poly8_def power_divide)
  then show "log_score_F < - 6.70" unfolding log_score_F_eq by simp
qed

lemma class_M_positive:
  "0 < pS0" "\<forall>(x, mu, sd)\<in>set [(H, mu_HS0, std_HS0), (W, mu_WS0, std_WS0), (F, mu_FS0, std_FS0)].
              0 < norm_pdf x mu sd"
  by (simp_all add: priors stds_M norm_pdf_pos_iff)

lemma class_F_positive:
  "0 < pS1" "\<forall>(x, mu, sd)\<in>set [(H, mu_HS1, std_HS1), (W, mu_WS1, std_WS1), (F, mu_FS1, std_FS1)].
              0 < norm_pdf x mu sd"
  by (simp_all add: priors stds_F norm_pdf_pos_iff)

lemma scores_positive: "0 < score_M" "0 < score_F"
  unfolding score_M_nb score_F_nb
  by (rule nb_score_pos, rule class_M_positive, rule class_M_positive)
     (rule nb_score_pos, rule class_F_positive, rule class_F_positive)

lemma log_scores_ln: "log_score_M = ln score_M" "log_score_F = ln score_F"
  unfolding score_M_nb score_F_nb log_score_M_nb log_score_F_nb
  by (rule nb_log_score_ln, rule class_M_positive, rule class_M_positive)
     (rule nb_log_score_ln, rule class_F_positive, rule class_F_positive)

section \<open>The naive Bayes claims\<close>

text \<open>
  Claim C4. For a class whose prior and whose per-feature densities at the input are all
  strictly positive, the log-score accumulated in log space,
  \<open>ln prior + \<Sum> norm_logpdf\<close>, equals the logarithm of the product score
  \<open>prior * \<Prod> norm_pdf\<close>.
\<close>

theorem log_score_equals_log_of_score:
  assumes "0 < prior" and "\<forall>(x, mu, sd)\<in>set feats. 0 < norm_pdf x mu sd"
  shows "nb_log_score prior feats = ln (nb_score prior feats)"
  using assms by (rule nb_log_score_ln)

theorem log_score_equals_log_of_score_witness:
  "log_score_M = ln score_M"
  unfolding score_M_nb log_score_M_nb
  using class_M_positive by (rule log_score_equals_log_of_score)

text \<open>
  Claim C8. When the prior and the densities of every class are strictly positive, all
  class scores are strictly positive, and the probabilities obtained by dividing each
  score by the sum of the scores are the ones obtained by exponentiating each log-score
  relative to the largest log-score and normalising to sum 1; the class of largest
  probability is the class of largest log-score.
\<close>

theorem posterior_equals_softmax_of_log_scores:
  assumes "\<forall>(prior, feats)\<in>set classes.
             0 < prior \<and> (\<forall>(x, mu, sd)\<in>set feats. 0 < norm_pdf x mu sd)"
  shows "(\<forall>s\<in>set (map (\<lambda>(prior, feats). nb_score prior feats) classes). 0 < s) \<and>
         posterior (map (\<lambda>(prior, feats). nb_score prior feats) classes)
           = softmax_posterior (map (\<lambda>(prior, feats). nb_log_score prior feats) classes) \<and>
         np_argmax (posterior (map (\<lambda>(prior, feats). nb_score prior feats) classes))
           = np_argmax (map (\<lambda>(prior, feats). nb_log_score prior feats) classes)"
proof -
  let ?scores = "map (\<lambda>(prior, feats). nb_score prior feats) classes"
  have pos: "\<forall>s\<in>set ?scores. 0 < s"
    using assms by (auto intro!: nb_score_pos)
  have logs: "map (\<lambda>(prior, feats). nb_log_score prior feats) classes = map ln ?scores"
    using assms by (auto intro!: nb_log_score_ln)
  show ?thesis
    unfolding logs using pos posterior_softmax [OF pos] np_argmax_posterior [OF pos]
    by (simp del: map_map)
qed

theorem posterior_equals_softmax_of_log_scores_witness:
  "[proba_M, proba_F] = softmax_posterior [log_score_M, log_score_F] \<and>
   np_argmax [proba_M, proba_F] = np_argmax [log_score_M, log_score_F]"
proof -
  have "\<forall>(prior, feats)\<in>set [(pS0, [(H, mu_HS0, std_HS0), (W, mu_WS0, std_WS0), (F, mu_FS0, std_FS0)]),
                               (pS1, [(H, mu_HS1, std_HS1), (W, mu_WS1, std_WS1), (F, mu_FS1, std_FS1)])].
          0 < prior \<and> (\<forall>(x, mu, sd)\<in>set feats. 0 < norm_pdf x mu sd)"
    using class_M_positive class_F_positive by simp
  note t = posterior_equals_softmax_of_log_scores [OF this, simplified list.map prod.case]
  show ?thesis
    unfolding proba_posterior score_M_nb score_F_nb log_score_M_nb log_score_F_nb
    by (rule t [THEN conjunct2])
qed

text \<open>
  Claim C9. Whenever the total score of the classes is strictly positive, the
  probabilities of the classes (each score divided by the total) sum to 1. Nothing is
  asked of the balance of the classes in the data.
\<close>

theorem posterior_sums_to_one:
  assumes "0 < sum_list scores"
  shows "sum_list (posterior scores) = 1"
  using assms by (intro sum_list_posterior) simp

theorem posterior_sums_to_one_witness:
  "0 < score_M + score_F \<and> proba_M + proba_F = 1"
proof -
  have "0 < sum_list [score_M, score_F]" using scores_positive by simp
  from this posterior_sums_to_one [OF this] show ?thesis
    by (simp add: proba_posterior [symmetric])
qed

text \<open>
  Claim C1. On the nine-record data set the priors are \<open>4/9\<close> (male) and \<open>5/9\<close>
  (female); for the input \<open>(H, W, F) = (1.81, 59, 21)\<close> the probability of class female
  is strictly above that of class male, and the log-scores are \<open>-21.08\<close> (male) and
  \<open>-6.71\<close> (female) up to less than one hundredth.
\<close>

theorem worked_example_ranks_female_first:
  "pS0 = 4 / 9 \<and> pS1 = 5 / 9 \<and> proba_M < proba_F \<and>
   \<bar>log_score_M - (- 21.08)\<bar> < 0.01 \<and> \<bar>log_score_F - (- 6.71)\<bar> < 0.01"
proof -
  have "ln score_M < ln score_F"
    using log_score_M_bounds log_score_F_bounds by (simp add: log_scores_ln [symmetric])
  then have "score_M < score_F"
    using scores_positive by simp
  then have "proba_M < proba_F"
    unfolding proba_M_def proba_F_def using scores_positive
    by (intro divide_strict_right_mono) simp_all
  moreover have "\<bar>log_score_M - (- 21.08)\<bar> < 0.01"
    using log_score_M_bounds by linarith
  moreover have "\<bar>log_score_F - (- 6.71)\<bar> < 0.01"
    using log_score_F_bounds by linarith
  ultimately show ?thesis by (simp add: priors)
qed

section \<open>The multi-start selection\<close>

lemma argmin_loop_least:
  assumes "best < i" "length pre = i" "pre ! best = v" "\<forall>y\<in>set pre. v \<le> y"
  shows "argmin_loop i best v xs < i + length xs \<and>
         (\<forall>y\<in>set (pre @ xs). (pre @ xs) ! argmin_loop i best v xs \<le> y)"
  using assms
proof (induction xs arbitrary: i best v pre)
  case Nil
  then show ?case by simp
next
  case (Cons x xs)
  show ?case
  proof (cases "x < v")
    case True
    have "argmin_loop (Suc i) i x xs < Suc i + length xs \<and>
          (\<forall>y\<in>set ((pre @ [x]) @ xs). ((pre @ [x]) @ xs) ! argmin_loop (Suc i) i x xs \<le> y)"
      using Cons.prems True by (intro Cons.IH) (auto simp: nth_append)
    then show ?thesis using True by simp
  next
    case False
    have "argmin_loop (Suc i) best v xs < Suc i + length xs \<and>
          (\<forall>y\<in>set ((pre @ [x]) @ xs). ((pre @ [x]) @ xs) ! argmin_loop (Suc i) best v xs \<le> y)"
      using Cons.prems False by (intro Cons.IH) (auto simp: nth_append)
    then show ?thesis using False by simp
  qed
qed

lemma np_argmin_least:
  "case np_argmin ys of
     Inl e \<Rightarrow> e = ValueError \<and> ys = []
   | Inr i \<Rightarrow> i < length ys \<and> (\<forall>y\<in>set ys. ys ! i \<le> y)"
proof (cases ys)
  case Nil
  then show ?thesis by (simp add: np_argmin_def)
next
  case (Cons y rest)
  show ?thesis
    using argmin_loop_least [of 0 1 "[y]" y rest] Cons by (simp add: np_argmin_def)
qed

text \<open>
  Claim C5. Whatever the runs in \<open>opt_all\<close>: either the selection returns a run, and
  then this run is one of \<open>opt_all\<close>, is reported successful, has the least objective
  value among the successful runs, and \<open>theta_et\<close> is its minimiser; or it raises
  \<open>ValueError\<close>, which happens exactly when no run is successful, and then no
  hyperparameter is returned.
\<close>

theorem multistart_keeps_best_successful_run:
  "case opt opt_all of
     Inl e \<Rightarrow> e = ValueError \<and> (\<forall>r\<in>set opt_all. \<not> res_success r) \<and>
              theta_et opt_all = Inl ValueError
   | Inr r \<Rightarrow> r \<in> set opt_all \<and> res_success r \<and>
              (\<forall>r'\<in>set opt_all. res_success r' \<longrightarrow> res_fun r \<le> res_fun r') \<and>
              theta_et opt_all = Inr (res_x r)"
proof (cases "np_argmin (obj_success opt_all)")
  case (Inl e)
  then have "e = ValueError" "obj_success opt_all = []"
    using np_argmin_least [of "obj_success opt_all"] by simp_all
  then have "\<forall>r\<in>set opt_all. \<not> res_success r"
    by (simp add: obj_success_def opt_success_def filter_empty_conv)
  then show ?thesis
    using Inl \<open>e = ValueError\<close> by (simp add: opt_def ind_min_def theta_et_def)
next
  case (Inr i)
  then have i: "i < length (obj_success opt_all)"
    and least: "\<forall>y\<in>set (obj_success opt_all). obj_success opt_all ! i \<le> y"
    using np_argmin_least [of "obj_success opt_all"] by simp_all
  let ?r = "opt_success opt_all ! i"
  have len: "i < length (opt_success opt_all)" using i by (simp add: obj_success_def)
  then have mem: "?r \<in> set (opt_success opt_all)" by simp
  then have "?r \<in> set opt_all" "res_success ?r" by (simp_all add: opt_success_def)
  moreover have "res_fun ?r \<le> res_fun r'" if "r' \<in> set opt_all" "res_success r'" for r'
  proof -
    have "res_fun r' \<in> set (obj_success opt_all)"
      using that by (simp add: obj_success_def opt_success_def)
    then have "obj_success opt_all ! i \<le> res_fun r'" using least by blast
    then show ?thesis using len by (simp add: obj_success_def)
  qed
  ultimately show ?thesis
    using Inr by (simp add: opt_def ind_min_def theta_et_def)
qed

theorem multistart_keeps_best_successful_run_witness:
  "theta_et [\<lparr>res_x = [1], res_fun = 0, res_success = False\<rparr>,
             \<lparr>res_x = [2], res_fun = 5, res_success = True\<rparr>,
             \<lparr>res_x = [3], res_fun = 3, res_success = True\<rparr>,
             \<lparr>res_x = [4], res_fun = 3, res_success = True\<rparr>] = Inr [3] \<and>
   theta_et [\<lparr>res_x = [1], res_fun = 0, res_success = False\<rparr>] = Inl ValueError"
  using multistart_keeps_best_successful_run
          [of "[\<lparr>res_x = [1], res_fun = 0, res_success = False\<rparr>,
                \<lparr>res_x = [2], res_fun = 5, res_success = True\<rparr>,
                \<lparr>res_x = [3], res_fun = 3, res_success = True\<rparr>,
                \<lparr>res_x = [4], res_fun = 3, res_success = True\<rparr>]"]
        multistart_keeps_best_successful_run
          [of "[\<lparr>res_x = [1], res_fun = 0, res_success = False\<rparr>]"]
  by (simp add: theta_et_def opt_def ind_min_def obj_success_def opt_success_def np_argmin_def)

section \<open>The expected-improvement acquisition\<close>

text \<open>The series has the value of the distribution function at the origin.\<close>

lemma norm_cdf_zero: "norm_cdf 0 = 1 / 2"
  by (simp add: norm_cdf_def)

text \<open>
  Claim C6. At a query point where the surrogate's standard deviation is positive the
  expected improvement is \<open>(f_min - mu) * \<Phi>(z) + sigma * \<phi>(z)\<close> with
  \<open>z = (f_min - mu) / sigma\<close>; where the standard deviation is zero it is \<open>0\<close>; and in
  no case is a division by zero recorded.
\<close>

theorem expected_improvement_guards_zero_sigma:
  "(0 < predict_std GP point \<longrightarrow>
      EI GP point f_min =
        Inr ((f_min - predict_mean GP point)
               * norm_cdf ((f_min - predict_mean GP point) / predict_std GP point)
             + predict_std GP point
               * norm_pdf ((f_min - predict_mean GP point) / predict_std GP point) 0 1)) \<and>
   (predict_std GP point = 0 \<longrightarrow> EI GP point f_min = Inr 0) \<and>
   EI GP point f_min \<noteq> Inl ZeroDivisionError"
  by (simp add: EI_def checked_div_def Let_def)

theorem expected_improvement_guards_zero_sigma_witness:
  "EI \<lparr>predict_mean = (\<lambda>p. 2), predict_std = (\<lambda>p. 0)\<rparr> [7] 1 = Inr 0 \<and>
   EI \<lparr>predict_mean = (\<lambda>p. 1), predict_std = (\<lambda>p. 3)\<rparr> [7] 1 = Inr (3 / sqrt (2 * pi))"
  using expected_improvement_guards_zero_sigma
          [of "\<lparr>predict_mean = (\<lambda>p. 2), predict_std = (\<lambda>p. 0)\<rparr>" "[7]" 1]
        expected_improvement_guards_zero_sigma
          [of "\<lparr>predict_mean = (\<lambda>p. 1), predict_std = (\<lambda>p. 3)\<rparr>" "[7]" 1]
  by (simp add: norm_pdf_def)

section \<open>The optimisation loop\<close>

lemma np_min_nonempty: "ys \<noteq> [] \<Longrightarrow> \<exists>m. np_min ys = Inr m"
  by (cases ys) (simp_all add: np_min_def)

lemma np_min_snoc:
  assumes "np_min ys = Inr m"
  shows "np_min (ys @ [y]) = Inr (min m y)"
proof (cases ys)
  case Nil
  then show ?thesis using assms by (simp add: np_min_def)
next
  case (Cons a rest)
  then show ?thesis using assms by (simp add: np_min_def min.commute)
qed

lemma ego_loop_result:
  assumes "doe \<noteq> []" "i \<le> n_iter"
  shows "\<exists>doe' new.
           ego_loop fit acquire objective n_iter i doe trace = Inr (n_iter, doe', trace @ new) \<and>
           length new = n_iter - i \<and>
           length doe' = length doe + (n_iter - i) \<and>
           take (length doe) doe' = doe \<and>
           (\<forall>k<n_iter - i. np_min (map snd (take (length doe + k) doe')) = Inr (new ! k))"
  using assms
proof (induction fit acquire objective n_iter i doe trace rule: ego_loop.induct)
  case (1 fit acquire objective n_iter i doe trace)
  show ?case
  proof (cases "i < n_iter")
    case False
    with "1.prems" have "i = n_iter" by simp
    then show ?thesis by (subst ego_loop.simps) simp
  next
    case True
    obtain f_min where fm: "np_min (map snd doe) = Inr f_min"
      using np_min_nonempty [of "map snd doe"] "1.prems"(1) by auto
    let ?doe1 = "ego_iteration fit acquire objective doe f_min"
    obtain p where doe1: "?doe1 = doe @ [p]"
      by (simp add: ego_iteration_def Let_def)
    have "?doe1 \<noteq> []" "Suc i \<le> n_iter" using True doe1 by simp_all
    from "1.IH" [OF True fm this] obtain doe' new1 where
      run: "ego_loop fit acquire objective n_iter (Suc i) ?doe1 (trace @ [f_min])
              = Inr (n_iter, doe', (trace @ [f_min]) @ new1)"
      and len_new: "length new1 = n_iter - Suc i"
      and len_doe: "length doe' = length ?doe1 + (n_iter - Suc i)"
      and pre: "take (length ?doe1) doe' = ?doe1"
      and mins: "\<forall>k<n_iter - Suc i. np_min (map snd (take (length ?doe1 + k) doe')) = Inr (new1 ! k)"
      by blast
    have eq: "ego_loop fit acquire objective n_iter i doe trace = Inr (n_iter, doe', trace @ (f_min # new1))"
      using True fm run by (subst ego_loop.simps) simp
    have pre0: "take (length doe) doe' = doe"
    proof -
      have "take (length doe) doe' = take (length doe) (take (length ?doe1) doe')"
        using doe1 by (simp add: min_def)
      also have "\<dots> = take (length doe) ?doe1" by (simp only: pre)
      also have "\<dots> = doe" by (simp only: doe1 append_eq_conv_conj take_append) simp
      finally show ?thesis .
    qed
    have "np_min (map snd (take (length doe + k) doe')) = Inr ((f_min # new1) ! k)"
      if "k < n_iter - i" for k
    proof (cases k)
      case 0
      then show ?thesis using pre0 fm by simp
    next
      case (Suc k')
      then have "k' < n_iter - Suc i" using that by simp
      then show ?thesis using mins doe1 Suc by simp
    qed
    moreover have "length (f_min # new1) = n_iter - i"
      using len_new True by simp
    moreover have "length doe' = length doe + (n_iter - i)"
      using len_doe doe1 True by simp
    ultimately show ?thesis
      using eq pre0 by blast
  qed
qed

text \<open>
  Claim C3. From a non-empty initial design and for every budget \<open>n_iter\<close>, the loop
  returns after exactly \<open>n_iter\<close> iterations; the final design is the initial one followed
  by exactly \<open>n_iter\<close> new (point, value) pairs; the recorded values of \<open>f_min\<close> are the
  minima of all values observed so far, and each is at most the one before it.
\<close>

theorem ego_runs_the_iteration_budget:
  assumes "doe \<noteq> []"
  shows "\<exists>doe' trace.
           EGO fit acquire objective n_iter doe = Inr (n_iter, doe', trace) \<and>
           length doe' = length doe + n_iter \<and>
           take (length doe) doe' = doe \<and>
           length trace = Suc n_iter \<and>
           (\<forall>k\<le>n_iter. np_min (map snd (take (length doe + k) doe')) = Inr (trace ! k)) \<and>
           (\<forall>k<n_iter. trace ! Suc k \<le> trace ! k)"
proof -
  from ego_loop_result [OF assms, of 0 n_iter fit acquire objective "[]"]
  obtain doe' new where
    run: "ego_loop fit acquire objective n_iter 0 doe [] = Inr (n_iter, doe', new)"
    and len_new: "length new = n_iter"
    and len_doe: "length doe' = length doe + n_iter"
    and pre: "take (length doe) doe' = doe"
    and mins: "\<forall>k<n_iter. np_min (map snd (take (length doe + k) doe')) = Inr (new ! k)"
    by auto
  have "doe' \<noteq> []" using assms len_doe by auto
  then obtain f_min where fm: "np_min (map snd doe') = Inr f_min"
    using np_min_nonempty [of "map snd doe'"] by auto
  let ?trace = "new @ [f_min]"
  have ego: "EGO fit acquire objective n_iter doe = Inr (n_iter, doe', ?trace)"
    by (simp add: EGO_def run fm)
  have running: "np_min (map snd (take (length doe + k) doe')) = Inr (?trace ! k)"
    if "k \<le> n_iter" for k
  proof (cases "k < n_iter")
    case True
    then show ?thesis using mins len_new by (simp add: nth_append)
  next
    case False
    then have "k = n_iter" using that by simp
    then show ?thesis using fm len_new len_doe by (simp add: nth_append)
  qed
  have "?trace ! Suc k \<le> ?trace ! k" if "k < n_iter" for k
  proof -
    have "length doe + k < length doe'" using that len_doe by simp
    then have "take (length doe + Suc k) doe'
                 = take (length doe + k) doe' @ [doe' ! (length doe + k)]"
      by (simp add: take_Suc_conv_app_nth)
    then have "np_min (map snd (take (length doe + Suc k) doe'))
                 = Inr (min (?trace ! k) (snd (doe' ! (length doe + k))))"
      using np_min_snoc [OF running [of k]] that by simp
    moreover have "np_min (map snd (take (length doe + Suc k) doe')) = Inr (?trace ! Suc k)"
      using running [of "Suc k"] that by simp
    ultimately show ?thesis by simp
  qed
  with ego len_doe pre len_new running show ?thesis
    by (intro exI [of _ doe'] exI [of _ ?trace]) simp
qed

theorem ego_runs_the_iteration_budget_witness:
  "[([0::real], 4::real), ([7], 2)] \<noteq> [] \<and>
   (\<exists>doe' trace.
      EGO (\<lambda>d. length d) (\<lambda>m f. [f - 1]) (\<lambda>x. x ! 0 * x ! 0) 2 [([0], 4), ([7], 2)]
        = Inr (2, doe', trace) \<and>
      doe' = [([0], 4), ([7], 2), ([1], 1), ([0], 0)] \<and> trace = [2, 1, 0] \<and>
      length doe' = length [([0::real], 4::real), ([7], 2)] + 2 \<and>
      trace ! 1 \<le> trace ! 0 \<and> trace ! 2 \<le> trace ! 1)"
proof -
  have ne: "[([0::real], 4::real), ([7], 2)] \<noteq> []" by simp
  show ?thesis
    using ego_runs_the_iteration_budget
            [OF ne, of "\<lambda>d. length d" "\<lambda>m f. [f - 1]" "\<lambda>x. x ! 0 * x ! 0" 2]
    by (simp add: EGO_def ego_loop.simps ego_iteration_def np_min_def Let_def)
qed

end
